theory Spec2Isabelle
  imports Main "HOL-Library.AList" "HOL-Library.Multiset" "HOL-Library.Char_ord"
    "HOL-Library.List_Lexorder"
begin

section \<open>Strings\<close>

text \<open>
  A Python \<open>str\<close> is modelled as a \<open>string\<close>: each \<open>char\<close> stands for the code point
  of the same number, so the model covers the strings whose code points are below 256.
  Python compares strings by code point, which is the lexicographic order on \<open>char list\<close>.
\<close>

definition code_point :: "char \<Rightarrow> nat" where
  "code_point c = of_char c"

text \<open>\<open>str.lower()\<close> on code points below 256: the ASCII capitals and the Latin-1 capitals
  (U+00C0 to U+00DE without the multiplication sign U+00D7) move up by 32.\<close>

definition lower_char :: "char \<Rightarrow> char" where
  "lower_char c =
     (let n = code_point c
      in if (65 \<le> n \<and> n \<le> 90) \<or> (192 \<le> n \<and> n \<le> 222 \<and> n \<noteq> 215)
         then char_of (n + 32) else c)"

definition lower :: "string \<Rightarrow> string" where
  "lower s = map lower_char s"

text \<open>\<open>a in b\<close> on two strings: \<open>a\<close> occurs in \<open>b\<close> as a contiguous substring.\<close>

fun starts_with :: "string \<Rightarrow> string \<Rightarrow> bool" where
  "starts_with [] s = True"
| "starts_with (c # cs) [] = False"
| "starts_with (c # cs) (d # ds) = (c = d \<and> starts_with cs ds)"

fun str_in :: "string \<Rightarrow> string \<Rightarrow> bool" where
  "str_in a [] = (a = [])"
| "str_in a (d # ds) = (starts_with a (d # ds) \<or> str_in a ds)"

text \<open>Decimal text of an integer, as \<open>str(n)\<close> and the f-string \<open>{n}\<close> print it.\<close>

definition digit :: "nat \<Rightarrow> char" where
  "digit n = ''0123456789abcdef'' ! n"

function str_nat :: "nat \<Rightarrow> string" where
  "str_nat n = (if n < 10 then [digit n] else str_nat (n div 10) @ [digit (n mod 10)])"
  by pat_completeness auto
termination
  by (relation "measure id") auto

declare str_nat.simps [simp del]

definition str_int :: "int \<Rightarrow> string" where
  "str_int i = (if i < 0 then CHR ''-'' # str_nat (nat (- i)) else str_nat (nat i))"

section \<open>Request parameters and the cache key\<close>

text \<open>
  A parameter dict (\<open>Dict[str, Any]\<close>) is an association list in insertion order whose
  keys are distinct; the values the four operations put into it are strings and integers,
  and \<open>None\<close> for an unset credential. \<open>d[k] = v\<close> and \<open>{**d, k: v}\<close> are
  \<^const>\<open>AList.update\<close>: the value is replaced in place when the key is there, and the
  pair is appended otherwise.
\<close>

datatype pval = PStr string | PInt int | PNone

type_synonym params = "(string \<times> pval) list"

text \<open>\<open>json.dumps\<close> with its default \<open>ensure_ascii=True\<close>: inside a string the quote and
  the backslash are escaped, the control characters with a short form use it, and every
  other character outside \<open>' '..'~'\<close> becomes \<open>\<close>\<open>uXXXX\<close> in lower-case hexadecimal.\<close>

definition json_escape_char :: "char \<Rightarrow> string" where
  "json_escape_char c =
     (let n = code_point c
      in if n = 34 then [CHR 0x5C, CHR 0x22]
         else if n = 92 then [CHR 0x5C, CHR 0x5C]
         else if n = 10 then [CHR 0x5C, CHR ''n'']
         else if n = 13 then [CHR 0x5C, CHR ''r'']
         else if n = 9 then [CHR 0x5C, CHR ''t'']
         else if n = 8 then [CHR 0x5C, CHR ''b'']
         else if n = 12 then [CHR 0x5C, CHR ''f'']
         else if 32 \<le> n \<and> n \<le> 126 then [c]
         else [CHR 0x5C, CHR ''u'', CHR ''0'', CHR ''0'', digit (n div 16), digit (n mod 16)])"

definition json_string :: "string \<Rightarrow> string" where
  "json_string s = [CHR 0x22] @ concat (map json_escape_char s) @ [CHR 0x22]"

fun json_pval :: "pval \<Rightarrow> string" where
  "json_pval (PStr s) = json_string s"
| "json_pval (PInt i) = str_int i"
| "json_pval PNone = ''null''"

definition json_item :: "string \<times> pval \<Rightarrow> string" where
  "json_item kv = json_string (fst kv) @ '': '' @ json_pval (snd kv)"

fun join :: "string \<Rightarrow> string list \<Rightarrow> string" where
  "join sep [] = []"
| "join sep [x] = x"
| "join sep (x # y # ys) = x @ sep @ join sep (y # ys)"

text \<open>\<open>sorted(params.items())\<close> orders the pairs by key: the keys of a dict are distinct, so
  the comparison of two pairs never reaches their values. \<open>json.dumps(d, sort_keys=True)\<close>
  sorts the items by key once more and writes them with the separators \<open>", "\<close> and
  \<open>": "\<close>.\<close>

definition sorted_items :: "params \<Rightarrow> params" where
  "sorted_items ps = sort_key fst ps"

definition json_dumps_sort_keys :: "params \<Rightarrow> string" where
  "json_dumps_sort_keys ps = ''{'' @ join '', '' (map json_item (sort_key fst ps)) @ ''}''"

text \<open>The parameter \<open>md5\<close> stands for \<open>hashlib.md5(s.encode()).hexdigest()\<close>, a function
  of the standard library.\<close>

definition generate_cache_key :: "(string \<Rightarrow> string) \<Rightarrow> string \<Rightarrow> params \<Rightarrow> string" where
  "generate_cache_key md5 endpoint ps =
     (let sorted_params = sorted_items ps;
          key_string = endpoint @ ''_'' @ json_dumps_sort_keys sorted_params
      in md5 key_string)"

section \<open>JSON documents and the object store\<close>

text \<open>
  A parsed JSON document. Numbers are integers, the only numbers of the upstream contract
  (\<open>totalArticles\<close>). An object lists its members in the order of the text.
\<close>

datatype json =
    JNull
  | JBool bool
  | JNum int
  | JStr string
  | JArr "json list"
  | JObj "(string \<times> json) list"

text \<open>
  Python dicts and lists are mutable objects that several variables may share, so they
  live in a store: an object is allocated at the next free address (the length of the
  store) and a value refers to it by its address. Strings, numbers, booleans and
  \<open>None\<close> are immutable and are values themselves.
\<close>

datatype val = VNone | VBool bool | VInt int | VStr string | VRef nat

datatype obj = OList "val list" | ODict "(string \<times> val) list"

type_synonym heap = "obj list"

text \<open>\<open>response.json()\<close> builds the objects of a document. A member name that occurs twice
  keeps its first position and its last value, as \<open>dict\<close> does.\<close>

fun alloc_json :: "json \<Rightarrow> heap \<Rightarrow> val \<times> heap"
  and alloc_items :: "json list \<Rightarrow> heap \<Rightarrow> val list \<times> heap"
  and alloc_fields :: "(string \<times> json) list \<Rightarrow> (string \<times> val) list \<Rightarrow> heap
        \<Rightarrow> (string \<times> val) list \<times> heap" where
  "alloc_json JNull h = (VNone, h)"
| "alloc_json (JBool b) h = (VBool b, h)"
| "alloc_json (JNum i) h = (VInt i, h)"
| "alloc_json (JStr s) h = (VStr s, h)"
| "alloc_json (JArr js) h =
     (case alloc_items js h of (vs, h1) \<Rightarrow> (VRef (length h1), h1 @ [OList vs]))"
| "alloc_json (JObj kjs) h =
     (case alloc_fields kjs [] h of (fs, h1) \<Rightarrow> (VRef (length h1), h1 @ [ODict fs]))"
| "alloc_items [] h = ([], h)"
| "alloc_items (j # js) h =
     (case alloc_json j h of (v, h1) \<Rightarrow>
        (case alloc_items js h1 of (vs, h2) \<Rightarrow> (v # vs, h2)))"
| "alloc_fields [] fs h = (fs, h)"
| "alloc_fields (kj # kjs) fs h =
     (case alloc_json (snd kj) h of (v, h1) \<Rightarrow>
        alloc_fields kjs (AList.update (fst kj) v fs) h1)"

text \<open>What a value is when the program looks at it. An address outside the store does not
  occur in a run; it reads as \<open>None\<close>.\<close>

datatype view =
    NoneV
  | BoolV bool
  | IntV int
  | StrV string
  | ListV "val list"
  | DictV "(string \<times> val) list"

fun view_of :: "heap \<Rightarrow> val \<Rightarrow> view" where
  "view_of h VNone = NoneV"
| "view_of h (VBool b) = BoolV b"
| "view_of h (VInt i) = IntV i"
| "view_of h (VStr s) = StrV s"
| "view_of h (VRef a) =
     (if a < length h then (case h ! a of OList xs \<Rightarrow> ListV xs | ODict fs \<Rightarrow> DictV fs)
      else NoneV)"

fun type_name :: "view \<Rightarrow> string" where
  "type_name NoneV = ''NoneType''"
| "type_name (BoolV b) = ''bool''"
| "type_name (IntV i) = ''int''"
| "type_name (StrV s) = ''str''"
| "type_name (ListV xs) = ''list''"
| "type_name (DictV fs) = ''dict''"

section \<open>Errors\<close>

text \<open>
  \<open>Exception msg\<close> is the \<open>Exception\<close> that \<open>_make_request\<close> raises with its message;
  the other three are the built-in exceptions that a subscript, a method call or an
  iteration raises on a value of the wrong shape.
\<close>

datatype error =
    Exception string
  | KeyError string
  | TypeError
  | AttributeError

text \<open>\<open>x[k]\<close> with a string \<open>k\<close>.\<close>

fun subscript :: "view \<Rightarrow> string \<Rightarrow> error + val" where
  "subscript (DictV fs) k = (case map_of fs k of Some v \<Rightarrow> Inr v | None \<Rightarrow> Inl (KeyError k))"
| "subscript x k = Inl TypeError"

text \<open>\<open>x.get(k)\<close>.\<close>

fun dict_get :: "view \<Rightarrow> string \<Rightarrow> error + val" where
  "dict_get (DictV fs) k = (case map_of fs k of Some v \<Rightarrow> Inr v | None \<Rightarrow> Inr VNone)"
| "dict_get x k = Inl AttributeError"

text \<open>\<open>x.lower()\<close>.\<close>

fun str_lower :: "view \<Rightarrow> error + string" where
  "str_lower (StrV s) = Inr (lower s)"
| "str_lower x = Inl AttributeError"

text \<open>The truth value of \<open>x\<close> in a condition.\<close>

fun truthy :: "view \<Rightarrow> bool" where
  "truthy NoneV = False"
| "truthy (BoolV b) = b"
| "truthy (IntV i) = (i \<noteq> 0)"
| "truthy (StrV s) = (s \<noteq> [])"
| "truthy (ListV xs) = (xs \<noteq> [])"
| "truthy (DictV fs) = (fs \<noteq> [])"

text \<open>The elements \<open>for a in x\<close> runs through: of a list its elements, of a string its
  characters, of a dict its keys.\<close>

fun iterate :: "view \<Rightarrow> error + val list" where
  "iterate (ListV xs) = Inr xs"
| "iterate (StrV s) = Inr (map (\<lambda>c. VStr [c]) s)"
| "iterate (DictV fs) = Inr (map (\<lambda>kv. VStr (fst kv)) fs)"
| "iterate x = Inl TypeError"

section \<open>The text of a value in a message\<close>

text \<open>\<open>dict(pairs)\<close>: a key that occurs twice keeps its first position and its last value.\<close>

definition dict_of_pairs :: "(string \<times> 'a) list \<Rightarrow> (string \<times> 'a) list" where
  "dict_of_pairs kvs = foldl (\<lambda>d kv. AList.update (fst kv) (snd kv) d) [] kvs"

text \<open>\<open>repr\<close> of a string: single quotes unless the string has a single quote and no double
  quote; the quote in use and the backslash are escaped, tab, newline and return have their
  short forms, and the other characters that are not printable are written \<open>\<close>\<open>xhh\<close>.\<close>

definition repr_quote :: "string \<Rightarrow> char" where
  "repr_quote s = (if CHR 0x27 \<in> set s \<and> CHR 0x22 \<notin> set s then CHR 0x22 else CHR 0x27)"

definition repr_char :: "char \<Rightarrow> char \<Rightarrow> string" where
  "repr_char q c =
     (let n = code_point c
      in if c = q \<or> n = 92 then [CHR 0x5C, c]
         else if n = 9 then [CHR 0x5C, CHR ''t'']
         else if n = 10 then [CHR 0x5C, CHR ''n'']
         else if n = 13 then [CHR 0x5C, CHR ''r'']
         else if n < 32 \<or> n = 127 \<or> (128 \<le> n \<and> n \<le> 160) \<or> n = 173
           then [CHR 0x5C, CHR ''x'', digit (n div 16), digit (n mod 16)]
         else [c])"

definition repr_str :: "string \<Rightarrow> string" where
  "repr_str s = (let q = repr_quote s in [q] @ concat (map (repr_char q) s) @ [q])"

fun py_repr :: "json \<Rightarrow> string" where
  "py_repr JNull = ''None''"
| "py_repr (JBool b) = (if b then ''True'' else ''False'')"
| "py_repr (JNum i) = str_int i"
| "py_repr (JStr s) = repr_str s"
| "py_repr (JArr js) = ''['' @ join '', '' (map py_repr js) @ '']''"
| "py_repr (JObj kjs) =
     ''{'' @ join '', ''
        (map (\<lambda>kr. repr_str (fst kr) @ '': '' @ snd kr)
           (dict_of_pairs (map (\<lambda>(k, j). (k, py_repr j)) kjs))) @ ''}''"

text \<open>\<open>str(x)\<close>, which an f-string applies to \<open>{x}\<close>: a string is itself, every other
  value is its \<open>repr\<close>.\<close>

fun py_str :: "json \<Rightarrow> string" where
  "py_str (JStr s) = s"
| "py_str j = py_repr j"

section \<open>The cache store\<close>

text \<open>
  The service keeps its responses in \<open>TTLCache(maxsize=1000, ttl=600)\<close> of the package
  \<open>cachetools\<close>, whose code is not among the sources. The store is the Cache Store of
  the specification: entries in the order of their insertion, each with the time of its
  insertion.
\<close>

record cache_entry =
  ckey :: string
  cval :: val
  inserted_at :: int

record ttl_cache =
  entries :: "cache_entry list"
  maxsize :: nat
  ttl :: int

text \<open>Modelled from the spec: the lookup \<open>get(key) -> value or absent\<close> of the Cache Store
  (\<open>key in cache\<close> and \<open>cache[key]\<close> of \<open>TTLCache\<close>). An entry is absent once
  \<open>now - insertedAt >= ttl\<close>; expiry is evaluated at the lookup and a lookup changes
  nothing in the store.\<close>

definition cache_get :: "ttl_cache \<Rightarrow> string \<Rightarrow> int \<Rightarrow> val option" where
  "cache_get c k now =
     (case find (\<lambda>e. ckey e = k) (entries c) of
        None \<Rightarrow> None
      | Some e \<Rightarrow> if now - inserted_at e \<ge> ttl c then None else Some (cval e))"

text \<open>Modelled from the spec: the capacity policy of the Cache Store. While inserting one
  more entry would exceed the capacity \<open>m\<close>, the least recently inserted entry, the head
  of the list, is evicted first.\<close>

fun evict :: "nat \<Rightarrow> cache_entry list \<Rightarrow> cache_entry list" where
  "evict m [] = []"
| "evict m (e # es) = (if Suc (length (e # es)) > m then evict m es else e # es)"

text \<open>Modelled from the spec: \<open>set(key, value)\<close> of the Cache Store
  (\<open>cache[key] = value\<close> of \<open>TTLCache\<close>). An entry under the same key is replaced: the
  new entry is the most recently inserted one and its clock starts at \<open>now\<close>.\<close>

definition cache_set :: "ttl_cache \<Rightarrow> string \<Rightarrow> val \<Rightarrow> int \<Rightarrow> ttl_cache" where
  "cache_set c k v now =
     c\<lparr>entries := evict (maxsize c) (filter (\<lambda>e. ckey e \<noteq> k) (entries c))
                     @ [\<lparr>ckey = k, cval = v, inserted_at = now\<rparr>]\<rparr>"

text \<open>Modelled from the spec: \<open>size() -> count\<close> of the Cache Store (\<open>len(cache)\<close> of
  \<open>TTLCache\<close>): the number of entries that are not absent at \<open>now\<close>.\<close>

definition cache_size :: "ttl_cache \<Rightarrow> int \<Rightarrow> nat" where
  "cache_size c now = length (filter (\<lambda>e. \<not> now - inserted_at e \<ge> ttl c) (entries c))"

text \<open>Modelled from the spec: \<open>clear()\<close> of the Cache Store removes all entries.\<close>

definition cache_clear :: "ttl_cache \<Rightarrow> ttl_cache" where
  "cache_clear c = c\<lparr>entries := []\<rparr>"

section \<open>The service\<close>

text \<open>
  The state of a run: the fields of \<open>NewsService\<close>, the object store, and the requests
  sent to the upstream API so far, in order.
\<close>

record request =
  url :: string
  query :: params

record state =
  heap :: heap
  cache :: ttl_cache
  base_url :: string
  api_key :: "string option"
  cache_hits :: nat
  cache_misses :: nat
  sent :: "request list"

text \<open>\<open>NewsService.__init__\<close>; \<open>env_key\<close> is \<open>os.getenv("GNEWS_API_KEY")\<close>.\<close>

definition init :: "string option \<Rightarrow> state" where
  "init env_key =
     \<lparr>heap = [],
      cache = \<lparr>entries = [], maxsize = 1000, ttl = 600\<rparr>,
      base_url = ''https://gnews.io/api/v4'',
      api_key = env_key,
      cache_hits = 0,
      cache_misses = 0,
      sent = []\<rparr>"

text \<open>
  What \<open>client.get\<close> and \<open>response.json()\<close> of the package \<open>httpx\<close> can do:
  \<^item> \<open>Response status body\<close>: a response arrived. \<open>body\<close> is \<open>Inr j\<close> when the body
    parses as the document \<open>j\<close>, and \<open>Inl msg\<close> when \<open>response.json()\<close> raises, with
    the text \<open>msg\<close> of that exception;
  \<^item> \<open>RequestError msg\<close>: \<open>httpx.RequestError\<close> (a timeout, a connection failure), with
    \<open>str(e) = msg\<close>;
  \<^item> \<open>OtherError msg\<close>: any other exception from the client, with \<open>str(e) = msg\<close>.

  \<open>response.raise_for_status()\<close> raises \<open>HTTPStatusError\<close> for every status outside
  200..299.
\<close>

datatype http_outcome =
    Response nat "string + json"
  | RequestError string
  | OtherError string

definition is_success :: "nat \<Rightarrow> bool" where
  "is_success status = (200 \<le> status \<and> status < 300)"

definition pval_of_key :: "string option \<Rightarrow> pval" where
  "pval_of_key k = (case k of None \<Rightarrow> PNone | Some s \<Rightarrow> PStr s)"

text \<open>The handler of \<open>HTTPStatusError\<close>: the status, and the detail when the body is a JSON
  object. \<open>.get("message", "Unknown error")\<close> raises on any other body, and a body that
  does not parse makes \<open>.json()\<close> raise; the bare \<open>except\<close> drops either exception and
  leaves the message without a detail.\<close>

definition status_error_msg :: "nat \<Rightarrow> string + json \<Rightarrow> string" where
  "status_error_msg status body =
     (let error_msg = ''GNews API Error: '' @ str_nat status
      in case body of
           Inr (JObj kjs) \<Rightarrow>
             (let error_detail =
                    (case map_of (dict_of_pairs kjs) ''message'' of
                       Some m \<Rightarrow> py_str m
                     | None \<Rightarrow> ''Unknown error'')
              in error_msg @ '' - '' @ error_detail)
         | _ \<Rightarrow> error_msg)"

text \<open>
  \<open>_make_request\<close>. \<open>upstream\<close> answers the request that is sent, \<open>md5\<close> is the hash of
  the key derivation and \<open>now\<close> is the reading of the clock during the call.
  The lookup and the copy \<open>{**cached_data, "from_cache": True}\<close> stand before the
  \<open>try\<close>; everything from \<open>client.get\<close> to the \<open>return\<close> stands inside it, so the
  \<open>TypeError\<close> of \<open>{**data, "from_cache": False}\<close> on a document that is not an object
  is caught by \<open>except Exception\<close> after the document has been stored.
\<close>

definition make_request ::
  "(request \<Rightarrow> http_outcome) \<Rightarrow> (string \<Rightarrow> string) \<Rightarrow> string \<Rightarrow> params \<Rightarrow> int \<Rightarrow> state
     \<Rightarrow> (error + val) \<times> state" where
  "make_request upstream md5 endpoint ps now s =
     (let cache_key = generate_cache_key md5 endpoint ps
      in case cache_get (cache s) cache_key now of
           Some cached_data \<Rightarrow>
             (let s1 = s\<lparr>cache_hits := cache_hits s + 1\<rparr>
              in case view_of (heap s1) cached_data of
                   DictV fs \<Rightarrow>
                     (Inr (VRef (length (heap s1))),
                      s1\<lparr>heap := heap s1 @ [ODict (AList.update ''from_cache'' (VBool True) fs)]\<rparr>)
                 | _ \<Rightarrow> (Inl TypeError, s1))
         | None \<Rightarrow>
             (let params_with_key = AList.update ''apikey'' (pval_of_key (api_key s)) ps;
                  req = \<lparr>url = base_url s @ ''/'' @ endpoint, query = params_with_key\<rparr>;
                  s1 = s\<lparr>sent := sent s @ [req]\<rparr>
              in case upstream req of
                   RequestError msg \<Rightarrow>
                     (Inl (Exception (''Network error: Unable to reach GNews API - '' @ msg)), s1)
                 | OtherError msg \<Rightarrow> (Inl (Exception (''Request error: '' @ msg)), s1)
                 | Response status body \<Rightarrow>
                     if \<not> is_success status
                     then (Inl (Exception (status_error_msg status body)), s1)
                     else (case body of
                             Inl msg \<Rightarrow> (Inl (Exception (''Request error: '' @ msg)), s1)
                           | Inr j \<Rightarrow>
                               (case alloc_json j (heap s1) of (data, h1) \<Rightarrow>
                                  (let s2 = s1\<lparr>heap := h1,
                                                cache := cache_set (cache s1) cache_key data now,
                                                cache_misses := cache_misses s1 + 1\<rparr>
                                   in case view_of (heap s2) data of
                                        DictV fs \<Rightarrow>
                                          (Inr (VRef (length (heap s2))),
                                           s2\<lparr>heap := heap s2 @
                                                [ODict (AList.update ''from_cache'' (VBool False) fs)]\<rparr>)
                                      | x \<Rightarrow>
                                          (Inl (Exception (''Request error: '' @ [CHR 0x27]
                                                  @ type_name x @ [CHR 0x27]
                                                  @ '' object is not a mapping'')), s2))))))"

text \<open>\<open>get_top_headlines\<close>: the category is added only when it is given and not empty.\<close>

definition get_top_headlines ::
  "(request \<Rightarrow> http_outcome) \<Rightarrow> (string \<Rightarrow> string) \<Rightarrow> int \<Rightarrow> string \<Rightarrow> string \<Rightarrow> string option
     \<Rightarrow> int \<Rightarrow> state \<Rightarrow> (error + val) \<times> state" where
  "get_top_headlines upstream md5 cnt lang country category now s =
     (let ps = [(''max'', PInt (min cnt 100)), (''country'', PStr country), (''lang'', PStr lang)];
          ps' = (case category of
                   None \<Rightarrow> ps
                 | Some c \<Rightarrow> if c \<noteq> [] then AList.update ''category'' (PStr c) ps else ps)
      in make_request upstream md5 ''top-headlines'' ps' now s)"

definition search_params :: "string \<Rightarrow> int \<Rightarrow> string \<Rightarrow> string \<Rightarrow> string \<Rightarrow> params" where
  "search_params q cnt language country sort_by =
     [(''q'', PStr q), (''max'', PInt (min cnt 100)), (''lang'', PStr language),
      (''country'', PStr country), (''sortby'', PStr sort_by)]"

definition search_articles ::
  "(request \<Rightarrow> http_outcome) \<Rightarrow> (string \<Rightarrow> string) \<Rightarrow> string \<Rightarrow> int \<Rightarrow> string \<Rightarrow> string \<Rightarrow> string
     \<Rightarrow> int \<Rightarrow> state \<Rightarrow> (error + val) \<times> state" where
  "search_articles upstream md5 q cnt language country sort_by now s =
     make_request upstream md5 ''search'' (search_params q cnt language country sort_by) now s"

text \<open>The two assignments that end both post-filters: \<open>result["articles"] = filtered\<close> and
  \<open>result["totalArticles"] = len(filtered)\<close>, on the dict at address \<open>r\<close> with the fields
  \<open>fs\<close>. The list \<open>filtered\<close> is a new object.\<close>

definition store_filtered :: "nat \<Rightarrow> (string \<times> val) list \<Rightarrow> val list \<Rightarrow> state \<Rightarrow> state" where
  "store_filtered r fs filtered s =
     s\<lparr>heap := (heap s @ [OList filtered])
          [r := ODict (AList.update ''totalArticles'' (VInt (int (length filtered)))
                        (AList.update ''articles'' (VRef (length (heap s))) fs))]\<rparr>"

text \<open>The loop of \<open>find_by_title\<close>; \<open>acc\<close> is \<open>filtered_articles\<close>.\<close>

fun title_filter :: "heap \<Rightarrow> string \<Rightarrow> bool \<Rightarrow> val list \<Rightarrow> val list \<Rightarrow> error + val list" where
  "title_filter h search_title exact [] acc = Inr acc"
| "title_filter h search_title exact (article # rest) acc =
     (case subscript (view_of h article) ''title'' of
        Inl e \<Rightarrow> Inl e
      | Inr t \<Rightarrow>
          (case str_lower (view_of h t) of
             Inl e \<Rightarrow> Inl e
           | Inr article_title \<Rightarrow>
               (let match = (if exact then article_title = search_title
                             else str_in search_title article_title)
                in title_filter h search_title exact rest
                     (if match then acc @ [article] else acc))))"

text \<open>\<open>find_by_title\<close>. The result of \<open>search_articles\<close> is a dict, so the last two cases do
  not occur.\<close>

definition find_by_title ::
  "(request \<Rightarrow> http_outcome) \<Rightarrow> (string \<Rightarrow> string) \<Rightarrow> string \<Rightarrow> bool \<Rightarrow> int \<Rightarrow> state
     \<Rightarrow> (error + val) \<times> state" where
  "find_by_title upstream md5 title exact now s =
     (let query = (if exact then [CHR 0x22] @ title @ [CHR 0x22] else title)
      in case search_articles upstream md5 query 50 ''en'' ''us'' ''relevance'' now s of
           (Inl e, s1) \<Rightarrow> (Inl e, s1)
         | (Inr (VRef r), s1) \<Rightarrow>
             (case view_of (heap s1) (VRef r) of
                DictV fs \<Rightarrow>
                  (case map_of fs ''articles'' of
                     None \<Rightarrow> (Inr (VRef r), s1)
                   | Some arts \<Rightarrow>
                       (case iterate (view_of (heap s1) arts) of
                          Inl e \<Rightarrow> (Inl e, s1)
                        | Inr articles \<Rightarrow>
                            (case title_filter (heap s1) (lower title) exact articles [] of
                               Inl e \<Rightarrow> (Inl e, s1)
                             | Inr filtered \<Rightarrow>
                                 (Inr (VRef r), store_filtered r fs filtered s1))))
              | _ \<Rightarrow> (Inl TypeError, s1))
         | (Inr _, s1) \<Rightarrow> (Inl TypeError, s1))"

text \<open>The condition of the loop of \<open>find_by_author\<close>, with the short circuit of \<open>and\<close>:
  \<open>article.get("source") and article["source"].get("name") and
   author_lower in article["source"]["name"].lower()\<close>.\<close>

definition author_match :: "heap \<Rightarrow> string \<Rightarrow> val \<Rightarrow> error + bool" where
  "author_match h author_lower article =
     (case dict_get (view_of h article) ''source'' of
        Inl e \<Rightarrow> Inl e
      | Inr src0 \<Rightarrow>
          if \<not> truthy (view_of h src0) then Inr False
          else (case subscript (view_of h article) ''source'' of
                  Inl e \<Rightarrow> Inl e
                | Inr src \<Rightarrow>
                    (case dict_get (view_of h src) ''name'' of
                       Inl e \<Rightarrow> Inl e
                     | Inr name0 \<Rightarrow>
                         if \<not> truthy (view_of h name0) then Inr False
                         else (case subscript (view_of h src) ''name'' of
                                 Inl e \<Rightarrow> Inl e
                               | Inr name \<Rightarrow>
                                   (case str_lower (view_of h name) of
                                      Inl e \<Rightarrow> Inl e
                                    | Inr name_lower \<Rightarrow>
                                        Inr (str_in author_lower name_lower))))))"

text \<open>The loop of \<open>find_by_author\<close>: it leaves at the first append after which
  \<open>len(filtered_articles) >= count\<close>.\<close>

fun author_filter :: "heap \<Rightarrow> string \<Rightarrow> int \<Rightarrow> val list \<Rightarrow> val list \<Rightarrow> error + val list" where
  "author_filter h author_lower cnt [] acc = Inr acc"
| "author_filter h author_lower cnt (article # rest) acc =
     (case author_match h author_lower article of
        Inl e \<Rightarrow> Inl e
      | Inr match \<Rightarrow>
          if match
          then (let acc' = acc @ [article]
                in if int (length acc') \<ge> cnt then Inr acc'
                   else author_filter h author_lower cnt rest acc')
          else author_filter h author_lower cnt rest acc)"

text \<open>\<open>find_by_author\<close>.\<close>

definition find_by_author ::
  "(request \<Rightarrow> http_outcome) \<Rightarrow> (string \<Rightarrow> string) \<Rightarrow> string \<Rightarrow> int \<Rightarrow> int \<Rightarrow> state
     \<Rightarrow> (error + val) \<times> state" where
  "find_by_author upstream md5 author cnt now s =
     (case search_articles upstream md5 author 100 ''en'' ''us'' ''relevance'' now s of
        (Inl e, s1) \<Rightarrow> (Inl e, s1)
      | (Inr (VRef r), s1) \<Rightarrow>
          (case view_of (heap s1) (VRef r) of
             DictV fs \<Rightarrow>
               (case map_of fs ''articles'' of
                  None \<Rightarrow> (Inr (VRef r), s1)
                | Some arts \<Rightarrow>
                    (case iterate (view_of (heap s1) arts) of
                       Inl e \<Rightarrow> (Inl e, s1)
                     | Inr articles \<Rightarrow>
                         (case author_filter (heap s1) (lower author) cnt articles [] of
                            Inl e \<Rightarrow> (Inl e, s1)
                          | Inr filtered \<Rightarrow>
                              (Inr (VRef r), store_filtered r fs filtered s1))))
           | _ \<Rightarrow> (Inl TypeError, s1))
      | (Inr _, s1) \<Rightarrow> (Inl TypeError, s1))"

text \<open>\<open>clear_cache\<close>.\<close>

definition clear_cache :: "state \<Rightarrow> state" where
  "clear_cache s = s\<lparr>cache := cache_clear (cache s), cache_hits := 0, cache_misses := 0\<rparr>"

section \<open>Notions of the specification\<close>

text \<open>A run of insertions into the store, each with its key, its value and its time.\<close>

definition insert_all :: "ttl_cache \<Rightarrow> (string \<times> val \<times> int) list \<Rightarrow> ttl_cache" where
  "insert_all c ins = foldl (\<lambda>c (k, v, t). cache_set c k v t) c ins"

definition entry_of :: "string \<times> val \<times> int \<Rightarrow> cache_entry" where
  "entry_of i = \<lparr>ckey = fst i, cval = fst (snd i), inserted_at = snd (snd i)\<rparr>"

text \<open>The request that \<open>_make_request\<close> sends on a miss: the URL of the endpoint and the
  parameters with the credential of the service added under \<open>apikey\<close>.\<close>

definition request_for :: "state \<Rightarrow> string \<Rightarrow> params \<Rightarrow> request" where
  "request_for s endpoint ps =
     \<lparr>url = base_url s @ ''/'' @ endpoint,
      query = AList.update ''apikey'' (pval_of_key (api_key s)) ps\<rparr>"

text \<open>The title of an article: the string under \<open>title\<close> of a dict.\<close>

definition title_of :: "heap \<Rightarrow> val \<Rightarrow> string option" where
  "title_of h a =
     (case view_of h a of
        DictV afs \<Rightarrow>
          (case map_of afs ''title'' of
             Some t \<Rightarrow> (case view_of h t of StrV x \<Rightarrow> Some x | _ \<Rightarrow> None)
           | None \<Rightarrow> None)
      | _ \<Rightarrow> None)"

text \<open>The title of the article is equal to \<open>title\<close> without regard to case (\<open>exact\<close>), or
  contains \<open>title\<close> as a substring without regard to case.\<close>

definition title_matches :: "heap \<Rightarrow> string \<Rightarrow> bool \<Rightarrow> val \<Rightarrow> bool" where
  "title_matches h title exact a =
     (case title_of h a of
        None \<Rightarrow> False
      | Some t \<Rightarrow> if exact then lower t = lower title else str_in (lower title) (lower t))"

text \<open>The source name of an article: the string under \<open>name\<close> of the dict under
  \<open>source\<close>. An article without a source, or whose source has no name or an empty one,
  has no source name.\<close>

definition source_name :: "heap \<Rightarrow> val \<Rightarrow> string option" where
  "source_name h a =
     (case view_of h a of
        DictV afs \<Rightarrow>
          (case map_of afs ''source'' of
             Some src \<Rightarrow>
               (case view_of h src of
                  DictV sfs \<Rightarrow>
                    (case map_of sfs ''name'' of
                       Some n \<Rightarrow>
                         (case view_of h n of
                            StrV x \<Rightarrow> if x = [] then None else Some x
                          | _ \<Rightarrow> None)
                     | None \<Rightarrow> None)
                | _ \<Rightarrow> None)
           | None \<Rightarrow> None)
      | _ \<Rightarrow> None)"

text \<open>The source name of the article contains \<open>author\<close> as a substring without regard to
  case.\<close>

definition author_matches :: "heap \<Rightarrow> string \<Rightarrow> val \<Rightarrow> bool" where
  "author_matches h author a =
     (case source_name h a of
        None \<Rightarrow> False
      | Some n \<Rightarrow> str_in (lower author) (lower n))"

text \<open>An article as the upstream contract describes it, as far as \<open>find_by_author\<close> reads
  it: a dict whose \<open>source\<close>, when it is there, is \<open>null\<close> or a dict whose \<open>name\<close>, when
  it is there, is \<open>null\<close> or a string.\<close>

definition article_shaped :: "heap \<Rightarrow> val \<Rightarrow> bool" where
  "article_shaped h a =
     (case view_of h a of
        DictV afs \<Rightarrow>
          (case map_of afs ''source'' of
             None \<Rightarrow> True
           | Some src \<Rightarrow>
               (case view_of h src of
                  NoneV \<Rightarrow> True
                | DictV sfs \<Rightarrow>
                    (case map_of sfs ''name'' of
                       None \<Rightarrow> True
                     | Some n \<Rightarrow>
                         (case view_of h n of NoneV \<Rightarrow> True | StrV x \<Rightarrow> True | _ \<Rightarrow> False))
                | _ \<Rightarrow> False))
      | _ \<Rightarrow> False)"

text \<open>The part that \<open>find_by_title\<close> and \<open>find_by_author\<close> have in common, applied to the
  outcome of \<open>search_articles\<close>; \<open>loop\<close> is the loop over the articles.\<close>

definition post_filter ::
  "(heap \<Rightarrow> val list \<Rightarrow> error + val list) \<Rightarrow> (error + val) \<times> state \<Rightarrow> (error + val) \<times> state" where
  "post_filter loop out =
     (case out of
        (Inl e, s1) \<Rightarrow> (Inl e, s1)
      | (Inr (VRef r), s1) \<Rightarrow>
          (case view_of (heap s1) (VRef r) of
             DictV fs \<Rightarrow>
               (case map_of fs ''articles'' of
                  None \<Rightarrow> (Inr (VRef r), s1)
                | Some arts \<Rightarrow>
                    (case iterate (view_of (heap s1) arts) of
                       Inl e \<Rightarrow> (Inl e, s1)
                     | Inr articles \<Rightarrow>
                         (case loop (heap s1) articles of
                            Inl e \<Rightarrow> (Inl e, s1)
                          | Inr filtered \<Rightarrow>
                              (Inr (VRef r), store_filtered r fs filtered s1))))
           | _ \<Rightarrow> (Inl TypeError, s1))
      | (Inr _, s1) \<Rightarrow> (Inl TypeError, s1))"

text \<open>The query that \<open>find_by_title\<close> searches for.\<close>

definition title_query :: "string \<Rightarrow> bool \<Rightarrow> string" where
  "title_query title exact = (if exact then [CHR 0x22] @ title @ [CHR 0x22] else title)"

text \<open>A document for the examples.\<close>

definition example_members :: "(string \<times> json) list" where
  "example_members =
     [(''totalArticles'', JNum 3),
      (''articles'',
       JArr [JObj [(''title'', JStr ''Election Night Results''),
                   (''source'', JObj [(''name'', JStr ''Reuters'')])],
             JObj [(''title'', JStr ''Weather Update''),
                   (''source'', JObj [(''name'', JStr ''BBC'')])],
             JObj [(''title'', JStr ''Markets''),
                   (''source'', JObj [(''name'', JStr ''Thomson Reuters'')])]])]"

definition example_doc :: json where
  "example_doc = JObj example_members"

text \<open>A document with an article that has no title.\<close>

definition untitled_doc :: json where
  "untitled_doc =
     JObj [(''totalArticles'', JNum 2),
           (''articles'',
            JArr [JObj [(''title'', JStr ''Election Night Results'')],
                  JObj [(''description'', JStr ''An article without a title'')]])]"

definition example_upstream :: "request \<Rightarrow> http_outcome" where
  "example_upstream req = Response 200 (Inr example_doc)"

definition example_state :: state where
  "example_state = init (Some ''secret'')"

section \<open>Substrings\<close>

text \<open>\<^const>\<open>str_in\<close> is the substring relation.\<close>

lemma starts_with_iff: "starts_with a b \<longleftrightarrow> (\<exists>s. b = a @ s)"
  by (induction a b rule: starts_with.induct) auto

lemma str_in_iff: "str_in a b \<longleftrightarrow> (\<exists>p s. b = p @ a @ s)"
proof (induction b)
  case Nil
  then show ?case by simp
next
  case (Cons d ds)
  have "(\<exists>p s. d # ds = p @ a @ s)
      \<longleftrightarrow> (\<exists>s. d # ds = a @ s) \<or> (\<exists>p s. ds = p @ a @ s)"
  proof
    assume "\<exists>p s. d # ds = p @ a @ s"
    then obtain p s where e: "d # ds = p @ a @ s" by blast
    show "(\<exists>s. d # ds = a @ s) \<or> (\<exists>p s. ds = p @ a @ s)"
    proof (cases p)
      case Nil
      with e show ?thesis by auto
    next
      case (Cons x xs)
      with e have "ds = xs @ a @ s" by simp
      then show ?thesis by blast
    qed
  next
    assume "(\<exists>s. d # ds = a @ s) \<or> (\<exists>p s. ds = p @ a @ s)"
    then show "\<exists>p s. d # ds = p @ a @ s"
    proof
      assume "\<exists>s. d # ds = a @ s"
      then obtain s where "d # ds = [] @ a @ s" by auto
      then show ?thesis by blast
    next
      assume "\<exists>p s. ds = p @ a @ s"
      then obtain p s where "d # ds = (d # p) @ a @ s" by auto
      then show ?thesis by blast
    qed
  qed
  with Cons.IH show ?case by (simp add: starts_with_iff)
qed

section \<open>The cache key\<close>

lemma sort_key_fst_eq:
  assumes "distinct (map fst ps)" "distinct (map fst qs)" "map_of ps = map_of qs"
  shows "sort_key fst ps = sort_key fst (qs :: ('a::linorder \<times> 'b) list)"
proof -
  have s: "set ps = set qs" using assms by (simp add: map_of_inject_set)
  have "distinct ps" "distinct qs" using assms by (simp_all add: distinct_map)
  with s have m: "mset ps = mset qs" by (simp add: set_eq_iff_mset_eq_distinct)
  have i: "inj_on fst (set ps)" using assms(1) by (simp add: distinct_map)
  show ?thesis
    by (rule sort_key_inj_key_eq) (use m i in simp_all)
qed

text \<open>
  C2. The cache key is a function of the hash, the endpoint and the parameter dict alone:
  \<^const>\<open>generate_cache_key\<close> takes no clock and no state. Two parameter dicts that are
  equal as maps, whatever the order in which their keys were inserted, give the same key
  for every endpoint.
\<close>

theorem generate_cache_key_order_independent:
  assumes "distinct (map fst ps)" and "distinct (map fst qs)" and "map_of ps = map_of qs"
  shows "generate_cache_key md5 endpoint ps = generate_cache_key md5 endpoint qs"
  using sort_key_fst_eq [OF assms] by (simp add: generate_cache_key_def sorted_items_def)

theorem generate_cache_key_order_independent_witness:
  "distinct (map fst [(''q'', PStr ''news''), (''max'', PInt 10)])
   \<and> distinct (map fst [(''max'', PInt 10), (''q'', PStr ''news'')])
   \<and> map_of [(''q'', PStr ''news''), (''max'', PInt 10)]
       = map_of [(''max'', PInt 10), (''q'', PStr ''news'')]
   \<and> generate_cache_key (\<lambda>x. x) ''search'' [(''q'', PStr ''news''), (''max'', PInt 10)]
       = generate_cache_key (\<lambda>x. x) ''search'' [(''max'', PInt 10), (''q'', PStr ''news'')]"
proof -
  have d1: "distinct (map fst [(''q'', PStr ''news''), (''max'', PInt 10)])" by simp
  have d2: "distinct (map fst [(''max'', PInt 10), (''q'', PStr ''news'')])" by simp
  have m: "map_of [(''q'', PStr ''news''), (''max'', PInt 10)]
         = map_of [(''max'', PInt 10), (''q'', PStr ''news'')]"
    by (auto simp: fun_eq_iff)
  from generate_cache_key_order_independent [OF d1 d2 m]
  have c: "generate_cache_key (\<lambda>x. x) ''search'' [(''q'', PStr ''news''), (''max'', PInt 10)]
       = generate_cache_key (\<lambda>x. x) ''search'' [(''max'', PInt 10), (''q'', PStr ''news'')]" .
  show ?thesis using d1 d2 m c by (intro conjI)
qed

section \<open>The cache store\<close>

lemma evict_drop: "evict m es = drop (Suc (length es) - m) es"
  by (induction es) (auto simp: Suc_diff_le drop_Cons')

lemma set_evict: "set (evict m es) \<subseteq> set es"
  by (simp add: evict_drop set_drop_subset)

lemma find_append_last:
  "\<forall>x \<in> set xs. \<not> P x \<Longrightarrow> P e \<Longrightarrow> find P (xs @ [e]) = Some e"
  by (induction xs) auto

lemma cache_get_set_same:
  assumes w: "now2 - now1 < ttl c"
  shows "cache_get (cache_set c k v now1) k now2 = Some v"
proof -
  let ?es = "evict (maxsize c) (filter (\<lambda>e. ckey e \<noteq> k) (entries c))"
  have "\<forall>x \<in> set ?es. \<not> ckey x = k" using set_evict [of "maxsize c"] by fastforce
  then have "find (\<lambda>e. ckey e = k) (?es @ [\<lparr>ckey = k, cval = v, inserted_at = now1\<rparr>])
     = Some \<lparr>ckey = k, cval = v, inserted_at = now1\<rparr>"
    by (rule find_append_last) simp
  then show ?thesis using w by (simp add: cache_get_def cache_set_def)
qed

lemma insert_all_snoc:
  "insert_all c (ins @ [(k, v, t)]) = cache_set (insert_all c ins) k v t"
  by (simp add: insert_all_def)

lemma maxsize_insert_all: "maxsize (insert_all c ins) = maxsize c"
  by (induction ins arbitrary: c) (auto simp: insert_all_def cache_set_def)

lemma entries_insert_all:
  assumes "0 < maxsize c" and "entries c = []" and "distinct (map fst ins)"
  shows "entries (insert_all c ins) = drop (length ins - maxsize c) (map entry_of ins)"
  using assms(3)
proof (induction ins rule: rev_induct)
  case Nil
  then show ?case using assms(2) by (simp add: insert_all_def)
next
  case (snoc i ins)
  obtain k v t where i: "i = (k, v, t)" by (cases i)
  let ?es = "entries (insert_all c ins)"
  from snoc have IH: "?es = drop (length ins - maxsize c) (map entry_of ins)" by simp
  have "k \<notin> fst ` set ins" using snoc.prems i by auto
  then have "\<forall>e \<in> set (map entry_of ins). ckey e \<noteq> k"
    by (auto simp: entry_of_def)
  then have "\<forall>e \<in> set ?es. ckey e \<noteq> k"
    unfolding IH using set_drop_subset by fastforce
  then have f: "filter (\<lambda>e. ckey e \<noteq> k) ?es = ?es" by simp
  have "entries (insert_all c (ins @ [i])) = evict (maxsize c) ?es @ [entry_of i]"
    by (simp add: i insert_all_snoc cache_set_def f entry_of_def maxsize_insert_all)
  also have "\<dots> = drop (Suc (length ?es) - maxsize c) ?es @ [entry_of i]"
    by (simp add: evict_drop)
  also have "\<dots> = drop (length (ins @ [i]) - maxsize c) (map entry_of (ins @ [i]))"
  proof -
    have "Suc (length ins) - (length ins - maxsize c + maxsize c) + (length ins - maxsize c)
        = Suc (length ins) - maxsize c"
      using assms(1) by arith
    then show ?thesis using assms(1) unfolding IH by simp
  qed
  finally show ?case .
qed

lemma cache_size_le: "cache_size c now \<le> length (entries c)"
  by (simp add: cache_size_def)

text \<open>
  C7. Starting from an empty store of capacity \<open>maxsize c > 0\<close> (the service uses 1000),
  after any run of insertions under distinct keys the store holds exactly the last
  \<open>maxsize c\<close> inserted entries, in the order of their insertion. So the reported size
  never exceeds the capacity, and the entries that were evicted are the oldest inserted
  ones; entries inserted at the same time leave in the order of their insertion.
\<close>

theorem cache_capacity_bound:
  assumes "0 < maxsize c" and "entries c = []" and "distinct (map fst ins)"
  shows "cache_size (insert_all c ins) now \<le> maxsize c
       \<and> length (entries (insert_all c ins)) \<le> maxsize c
       \<and> entries (insert_all c ins) = drop (length ins - maxsize c) (map entry_of ins)"
proof -
  have e: "entries (insert_all c ins) = drop (length ins - maxsize c) (map entry_of ins)"
    by (rule entries_insert_all [OF assms])
  then have l: "length (entries (insert_all c ins)) \<le> maxsize c" by simp
  with cache_size_le [of "insert_all c ins" now] e show ?thesis by simp
qed

theorem cache_capacity_bound_witness:
  "0 < maxsize \<lparr>entries = [], maxsize = 2, ttl = 600\<rparr>
   \<and> entries \<lparr>entries = [], maxsize = 2, ttl = 600\<rparr> = []
   \<and> distinct (map fst [(''a'', VInt 1, 0::int), (''b'', VInt 2, 0), (''c'', VInt 3, 5)])
   \<and> cache_size (insert_all \<lparr>entries = [], maxsize = 2, ttl = 600\<rparr>
        [(''a'', VInt 1, 0), (''b'', VInt 2, 0), (''c'', VInt 3, 5)]) 7 \<le> 2
   \<and> entries (insert_all \<lparr>entries = [], maxsize = 2, ttl = 600\<rparr>
        [(''a'', VInt 1, 0), (''b'', VInt 2, 0), (''c'', VInt 3, 5)])
       = [\<lparr>ckey = ''b'', cval = VInt 2, inserted_at = 0\<rparr>,
          \<lparr>ckey = ''c'', cval = VInt 3, inserted_at = 5\<rparr>]"
proof -
  have h1: "0 < maxsize \<lparr>entries = [], maxsize = 2, ttl = 600\<rparr>" by simp
  have h2: "entries \<lparr>entries = [], maxsize = 2, ttl = 600\<rparr> = []" by simp
  have h3: "distinct (map fst [(''a'', VInt 1, 0::int), (''b'', VInt 2, 0), (''c'', VInt 3, 5)])"
    by simp
  from cache_capacity_bound [OF h1 h2 h3, of 7]
  have "cache_size (insert_all \<lparr>entries = [], maxsize = 2, ttl = 600\<rparr>
        [(''a'', VInt 1, 0), (''b'', VInt 2, 0), (''c'', VInt 3, 5)]) 7 \<le> 2
   \<and> entries (insert_all \<lparr>entries = [], maxsize = 2, ttl = 600\<rparr>
        [(''a'', VInt 1, 0), (''b'', VInt 2, 0), (''c'', VInt 3, 5)])
       = [\<lparr>ckey = ''b'', cval = VInt 2, inserted_at = 0\<rparr>,
          \<lparr>ckey = ''c'', cval = VInt 3, inserted_at = 5\<rparr>]"
    by (simp add: entry_of_def)
  with h1 h2 h3 show ?thesis by (intro conjI) simp_all
qed

section \<open>The cached call\<close>

lemma make_request_hit:
  assumes "cache_get (cache s) (generate_cache_key md5 endpoint ps) now = Some (VRef a)"
    and "a < length (heap s)" and "heap s ! a = ODict fs"
  shows "make_request upstream md5 endpoint ps now s
       = (Inr (VRef (length (heap s))),
          s\<lparr>cache_hits := cache_hits s + 1,
            heap := heap s @ [ODict (AList.update ''from_cache'' (VBool True) fs)]\<rparr>)"
  using assms by (simp add: make_request_def)

lemma make_request_miss_object:
  assumes "cache_get (cache s) (generate_cache_key md5 endpoint ps) now = None"
    and "upstream (request_for s endpoint ps) = Response status (Inr (JObj kjs))"
    and "is_success status"
    and "alloc_fields kjs [] (heap s) = (fs, h1)"
  shows "make_request upstream md5 endpoint ps now s
       = (Inr (VRef (Suc (length h1))),
          s\<lparr>sent := sent s @ [request_for s endpoint ps],
            heap := h1 @ [ODict fs, ODict (AList.update ''from_cache'' (VBool False) fs)],
            cache := cache_set (cache s) (generate_cache_key md5 endpoint ps) (VRef (length h1)) now,
            cache_misses := cache_misses s + 1\<rparr>)"
  using assms by (simp add: make_request_def request_for_def Let_def)

lemma make_request_failure:
  assumes "cache_get (cache s) (generate_cache_key md5 endpoint ps) now = None"
    and "case upstream (request_for s endpoint ps) of
           Response status body \<Rightarrow> \<not> is_success status \<or> (\<exists>msg. body = Inl msg)
         | _ \<Rightarrow> True"
  shows "\<exists>msg. make_request upstream md5 endpoint ps now s
       = (Inl (Exception msg), s\<lparr>sent := sent s @ [request_for s endpoint ps]\<rparr>)"
  using assms by (auto simp add: make_request_def request_for_def Let_def split: http_outcome.splits)

lemma map_of_foldl_update:
  "map_of (foldl (\<lambda>d kv. AList.update (fst kv) (snd kv) d) d0 kvs) = map_of (rev kvs @ d0)"
proof (induction kvs arbitrary: d0)
  case Nil
  then show ?case by simp
next
  case (Cons kv kvs)
  show ?case
    by (simp add: Cons.IH update_conv' map_add_def fun_eq_iff split: option.splits)
qed

lemma map_of_dict_of_pairs: "map_of (dict_of_pairs kvs) = map_of (rev kvs)"
  by (simp add: dict_of_pairs_def map_of_foldl_update)

lemma keys_cache_set:
  "ckey ` set (entries (cache_set c k v now)) \<subseteq> insert k (ckey ` set (entries c))"
  using set_evict [of "maxsize c" "filter (\<lambda>e. ckey e \<noteq> k) (entries c)"]
  by (auto simp: cache_set_def)

lemma make_request_cache_cases:
  "cache (snd (make_request upstream md5 endpoint ps now s)) = cache s
   \<or> (\<exists>data. cache (snd (make_request upstream md5 endpoint ps now s))
         = cache_set (cache s) (generate_cache_key md5 endpoint ps) data now)"
  by (auto simp: make_request_def Let_def split: option.splits view.splits http_outcome.splits sum.splits prod.splits)

lemma make_request_sent_cases:
  "sent (snd (make_request upstream md5 endpoint ps now s)) = sent s
   \<or> sent (snd (make_request upstream md5 endpoint ps now s)) = sent s @ [request_for s endpoint ps]"
  by (auto simp: make_request_def request_for_def Let_def split: option.splits view.splits http_outcome.splits sum.splits prod.splits)

lemma make_request_api_key:
  assumes "upstream1 (request_for (s\<lparr>api_key := k1\<rparr>) endpoint ps)
         = upstream2 (request_for (s\<lparr>api_key := k2\<rparr>) endpoint ps)"
  shows "fst (make_request upstream1 md5 endpoint ps now (s\<lparr>api_key := k1\<rparr>))
       = fst (make_request upstream2 md5 endpoint ps now (s\<lparr>api_key := k2\<rparr>))
     \<and> snd (make_request upstream2 md5 endpoint ps now (s\<lparr>api_key := k2\<rparr>))
       = (snd (make_request upstream1 md5 endpoint ps now (s\<lparr>api_key := k1\<rparr>)))
           \<lparr>api_key := k2,
            sent := sent (snd (make_request upstream2 md5 endpoint ps now (s\<lparr>api_key := k2\<rparr>)))\<rparr>"
  using assms
  by (auto simp: make_request_def request_for_def Let_def split: option.splits view.splits http_outcome.splits sum.splits prod.splits)

lemma make_request_sent_pair:
  assumes "upstream1 (request_for (s\<lparr>api_key := k1\<rparr>) endpoint ps)
         = upstream2 (request_for (s\<lparr>api_key := k2\<rparr>) endpoint ps)"
  shows "sent (snd (make_request upstream1 md5 endpoint ps now (s\<lparr>api_key := k1\<rparr>))) = sent s
       \<and> sent (snd (make_request upstream2 md5 endpoint ps now (s\<lparr>api_key := k2\<rparr>))) = sent s
     \<or> sent (snd (make_request upstream1 md5 endpoint ps now (s\<lparr>api_key := k1\<rparr>)))
         = sent s @ [\<lparr>url = base_url s @ ''/'' @ endpoint,
                      query = AList.update ''apikey'' (pval_of_key k1) ps\<rparr>]
       \<and> sent (snd (make_request upstream2 md5 endpoint ps now (s\<lparr>api_key := k2\<rparr>)))
         = sent s @ [\<lparr>url = base_url s @ ''/'' @ endpoint,
                      query = AList.update ''apikey'' (pval_of_key k2) ps\<rparr>]"
proof (cases "cache_get (cache s) (generate_cache_key md5 endpoint ps) now")
  case None
  have "sent (snd (make_request u md5 endpoint ps now (s\<lparr>api_key := k\<rparr>)))
      = sent s @ [\<lparr>url = base_url s @ ''/'' @ endpoint,
                   query = AList.update ''apikey'' (pval_of_key k) ps\<rparr>]" for u k
    using None
    by (auto simp: make_request_def Let_def
        split: view.splits http_outcome.splits sum.splits prod.splits)
  then show ?thesis by simp
next
  case (Some v)
  have "sent (snd (make_request u md5 endpoint ps now (s\<lparr>api_key := k\<rparr>))) = sent s" for u k
    using Some by (auto simp: make_request_def Let_def split: view.splits)
  then show ?thesis by simp
qed

text \<open>
  C1. A call whose key is not in the cache and whose upstream answer is a 2xx response with
  a JSON object, followed by a second call for the same endpoint and parameters within the
  TTL of the store: the two calls send exactly one request. The first call counts one miss
  and no hit, stores the document as \<open>response.json()\<close> built it (the dict at address
  \<open>length h1\<close> with the fields \<open>fs\<close>) and returns a new dict with these fields and
  \<open>from_cache = False\<close>. The second call counts one hit and no miss, leaves the cache as
  it is and returns a new dict with the fields of the stored dict and \<open>from_cache = True\<close>,
  whatever the upstream would answer.
\<close>

theorem make_request_twice:
  assumes miss: "cache_get (cache s) (generate_cache_key md5 endpoint ps) t1 = None"
    and up: "upstream1 (request_for s endpoint ps) = Response status (Inr (JObj kjs))"
    and ok: "is_success status"
    and alloc: "alloc_fields kjs [] (heap s) = (fs, h1)"
    and window: "t2 - t1 < ttl (cache s)"
  shows "(case make_request upstream1 md5 endpoint ps t1 s of (r1, s1) \<Rightarrow>
           (case make_request upstream2 md5 endpoint ps t2 s1 of (r2, s2) \<Rightarrow>
              sent s1 = sent s @ [request_for s endpoint ps] \<and> sent s2 = sent s1
            \<and> cache_misses s1 = cache_misses s + 1 \<and> cache_hits s1 = cache_hits s
            \<and> cache_hits s2 = cache_hits s1 + 1 \<and> cache_misses s2 = cache_misses s1
            \<and> alloc_json (JObj kjs) (heap s) = (VRef (length h1), h1 @ [ODict fs])
            \<and> cache_get (cache s1) (generate_cache_key md5 endpoint ps) t2 = Some (VRef (length h1))
            \<and> cache s2 = cache s1
            \<and> heap s1 = h1 @ [ODict fs, ODict (AList.update ''from_cache'' (VBool False) fs)]
            \<and> r1 = Inr (VRef (Suc (length h1)))
            \<and> heap s2 = heap s1 @ [ODict (AList.update ''from_cache'' (VBool True) fs)]
            \<and> r2 = Inr (VRef (length (heap s1)))))"
proof -
  let ?K = "generate_cache_key md5 endpoint ps"
  let ?s1 = "s\<lparr>sent := sent s @ [request_for s endpoint ps],
            heap := h1 @ [ODict fs, ODict (AList.update ''from_cache'' (VBool False) fs)],
            cache := cache_set (cache s) ?K (VRef (length h1)) t1,
            cache_misses := cache_misses s + 1\<rparr>"
  have first: "make_request upstream1 md5 endpoint ps t1 s = (Inr (VRef (Suc (length h1))), ?s1)"
    using miss up ok alloc by (rule make_request_miss_object)
  have "t2 - t1 < ttl (cache s)" by (rule window)
  then have get: "cache_get (cache ?s1) ?K t2 = Some (VRef (length h1))"
    by (simp add: cache_get_set_same)
  have second: "make_request upstream2 md5 endpoint ps t2 ?s1
       = (Inr (VRef (length (heap ?s1))),
          ?s1\<lparr>cache_hits := cache_hits ?s1 + 1,
            heap := heap ?s1 @ [ODict (AList.update ''from_cache'' (VBool True) fs)]\<rparr>)"
    by (rule make_request_hit [OF get]) (simp_all add: nth_append)
  show ?thesis
    unfolding first second prod.case using get alloc by simp
qed

theorem make_request_twice_witness:
  "cache_get (cache example_state) (generate_cache_key (\<lambda>x. x) ''search'' [(''q'', PStr ''x'')]) 0 = None
   \<and> example_upstream (request_for example_state ''search'' [(''q'', PStr ''x'')])
       = Response 200 (Inr (JObj example_members))
   \<and> is_success 200
   \<and> alloc_fields example_members [] (heap example_state)
       = (fst (alloc_fields example_members [] []), snd (alloc_fields example_members [] []))
   \<and> 599 - 0 < ttl (cache example_state)
   \<and> (case make_request example_upstream (\<lambda>x. x) ''search'' [(''q'', PStr ''x'')] 0 example_state of
        (r1, s1) \<Rightarrow>
          (case make_request (\<lambda>r. RequestError ''down'') (\<lambda>x. x) ''search'' [(''q'', PStr ''x'')] 599 s1 of
             (r2, s2) \<Rightarrow>
               r1 = Inr (VRef 8) \<and> r2 = Inr (VRef 9) \<and> length (sent s2) = 1
             \<and> cache_hits s2 = 1 \<and> cache_misses s2 = 1
             \<and> heap s2 ! 7 = ODict [(''totalArticles'', VInt 3), (''articles'', VRef 6)]
             \<and> heap s2 ! 8 = ODict [(''totalArticles'', VInt 3), (''articles'', VRef 6),
                                    (''from_cache'', VBool False)]
             \<and> heap s2 ! 9 = ODict [(''totalArticles'', VInt 3), (''articles'', VRef 6),
                                    (''from_cache'', VBool True)]))"
proof -
  have h1: "cache_get (cache example_state) (generate_cache_key (\<lambda>x. x) ''search'' [(''q'', PStr ''x'')]) 0 = None"
    by code_simp
  have h2: "example_upstream (request_for example_state ''search'' [(''q'', PStr ''x'')])
       = Response 200 (Inr (JObj example_members))"
    by (simp add: example_upstream_def example_doc_def)
  have h3: "is_success 200" by (simp add: is_success_def)
  have h4: "alloc_fields example_members [] (heap example_state)
       = (fst (alloc_fields example_members [] []), snd (alloc_fields example_members [] []))"
    by (simp add: example_state_def init_def)
  have h5: "599 - 0 < ttl (cache example_state)" by (simp add: example_state_def init_def)
  have a: "alloc_fields example_members [] []
      = ([(''totalArticles'', VInt 3), (''articles'', VRef 6)],
         [ODict [(''name'', VStr ''Reuters'')],
          ODict [(''title'', VStr ''Election Night Results''), (''source'', VRef 0)],
          ODict [(''name'', VStr ''BBC'')],
          ODict [(''title'', VStr ''Weather Update''), (''source'', VRef 2)],
          ODict [(''name'', VStr ''Thomson Reuters'')],
          ODict [(''title'', VStr ''Markets''), (''source'', VRef 4)],
          OList [VRef 1, VRef 3, VRef 5]])"
    by (simp add: example_members_def)
  from make_request_twice [where ?upstream1.0 = example_upstream
      and ?upstream2.0 = "\<lambda>r. RequestError ''down''", OF h1 h2 h3 h4 h5]
  have c: "(case make_request example_upstream (\<lambda>x. x) ''search'' [(''q'', PStr ''x'')] 0 example_state of
        (r1, s1) \<Rightarrow>
          (case make_request (\<lambda>r. RequestError ''down'') (\<lambda>x. x) ''search'' [(''q'', PStr ''x'')] 599 s1 of
             (r2, s2) \<Rightarrow>
               r1 = Inr (VRef 8) \<and> r2 = Inr (VRef 9) \<and> length (sent s2) = 1
             \<and> cache_hits s2 = 1 \<and> cache_misses s2 = 1
             \<and> heap s2 ! 7 = ODict [(''totalArticles'', VInt 3), (''articles'', VRef 6)]
             \<and> heap s2 ! 8 = ODict [(''totalArticles'', VInt 3), (''articles'', VRef 6),
                                    (''from_cache'', VBool False)]
             \<and> heap s2 ! 9 = ODict [(''totalArticles'', VInt 3), (''articles'', VRef 6),
                                    (''from_cache'', VBool True)]))"
    by (auto simp: a example_state_def init_def split: prod.splits)
  with h1 h2 h3 h4 h5 show ?thesis by (intro conjI)
qed

lemma example_key_absent:
  "cache_get (cache example_state) (generate_cache_key (\<lambda>x. x) ''search'' ps) now = None"
  by (simp add: example_state_def init_def cache_get_def)

text \<open>
  C3. An upstream answer with status 200 whose body is the JSON array \<open>[]\<close>, sent to a
  new service: \<open>_make_request\<close> stores the array in the cache and counts one miss before
  \<open>{**data, "from_cache": False}\<close> raises the \<open>TypeError\<close> that \<open>except Exception\<close>
  turns into the error of the call. The call fails, the cache has an entry it did not have
  and the miss counter has moved from 0 to 1.
\<close>

theorem make_request_list_document:
  "(case make_request (\<lambda>r. Response 200 (Inr (JArr []))) (\<lambda>x. x) ''search'' [(''q'', PStr ''x'')] 0 (init None) of
      (r, s') \<Rightarrow>
        r = Inl (Exception (''Request error: '' @ [CHR 0x27] @ ''list'' @ [CHR 0x27] @ '' object is not a mapping''))
      \<and> cache_misses (init None) = 0 \<and> cache_misses s' = 1
      \<and> entries (cache (init None)) = []
      \<and> cache_get (cache s') (generate_cache_key (\<lambda>x. x) ''search'' [(''q'', PStr ''x'')]) 0 = Some (VRef 0)
      \<and> heap s' = [OList []])"
  by code_simp

text \<open>
  C4, as the claim states it, fails for a body that is not JSON: the answer with status 500
  and such a body gives the message \<open>GNews API Error: 500\<close>, in which
  \<open>Unknown error\<close> does not occur.
\<close>

theorem make_request_unparsable_error_body:
  "fst (make_request (\<lambda>r. Response 500 (Inl ''Expecting value'')) (\<lambda>x. x) ''search''
          [(''q'', PStr ''x'')] 0 (init None))
     = Inl (Exception ''GNews API Error: 500'')
   \<and> \<not> str_in ''Unknown error'' ''GNews API Error: 500''"
  by code_simp

text \<open>
  C4, amended. On a miss, an upstream answer with a status outside 200..299 makes the call
  fail with an \<open>Exception\<close> whose message is \<open>GNews API Error: \<close> and the status code.
  When the body is a JSON object, the message goes on with \<open> - \<close> and the text of the
  member \<open>message\<close> (the last one of that name), or \<open>Unknown error\<close> when the object has
  no such member. When the body is not JSON, or is JSON but not an object, the message ends
  after the status code. The state changes only by the request that was sent.
\<close>

theorem make_request_status_error:
  assumes miss: "cache_get (cache s) (generate_cache_key md5 endpoint ps) now = None"
    and up: "upstream (request_for s endpoint ps) = Response status body"
    and bad: "\<not> is_success status"
  shows "make_request upstream md5 endpoint ps now s
       = (Inl (Exception (''GNews API Error: '' @ str_nat status @
                 (case body of
                    Inr (JObj kjs) \<Rightarrow>
                      '' - '' @ (case map_of (rev kjs) ''message'' of
                                   Some m \<Rightarrow> py_str m
                                 | None \<Rightarrow> ''Unknown error'')
                  | _ \<Rightarrow> []))),
          s\<lparr>sent := sent s @ [request_for s endpoint ps]\<rparr>)"
  using assms
  by (simp add: make_request_def request_for_def Let_def status_error_msg_def
      map_of_dict_of_pairs split: sum.splits json.splits option.splits)

theorem make_request_status_error_witness:
  "cache_get (cache (init None)) (generate_cache_key (\<lambda>x. x) ''search'' [(''q'', PStr ''x'')]) 0 = None
   \<and> (\<lambda>r. Response 429 (Inr (JObj [(''message'', JStr ''rate limited'')])))
        (request_for (init None) ''search'' [(''q'', PStr ''x'')])
       = Response 429 (Inr (JObj [(''message'', JStr ''rate limited'')]))
   \<and> \<not> is_success 429
   \<and> fst (make_request (\<lambda>r. Response 429 (Inr (JObj [(''message'', JStr ''rate limited'')])))
        (\<lambda>x. x) ''search'' [(''q'', PStr ''x'')] 0 (init None))
       = Inl (Exception ''GNews API Error: 429 - rate limited'')"
proof -
  have h1: "cache_get (cache (init None)) (generate_cache_key (\<lambda>x. x) ''search'' [(''q'', PStr ''x'')]) 0 = None"
    by code_simp
  have h2: "(\<lambda>r. Response 429 (Inr (JObj [(''message'', JStr ''rate limited'')])))
        (request_for (init None) ''search'' [(''q'', PStr ''x'')])
       = Response 429 (Inr (JObj [(''message'', JStr ''rate limited'')]))" by simp
  have h3: "\<not> is_success 429" by (simp add: is_success_def)
  have n: "str_nat 429 = ''429''" by code_simp
  from make_request_status_error [where upstream = "\<lambda>r. Response 429 (Inr (JObj [(''message'', JStr ''rate limited'')]))", OF h1 h2 h3]
  have "fst (make_request (\<lambda>r. Response 429 (Inr (JObj [(''message'', JStr ''rate limited'')])))
        (\<lambda>x. x) ''search'' [(''q'', PStr ''x'')] 0 (init None))
       = Inl (Exception ''GNews API Error: 429 - rate limited'')"
    by (simp add: n)
  with h1 h2 h3 show ?thesis by (intro conjI)
qed

text \<open>
  C9. Two runs of \<open>_make_request\<close> from states that differ only in the credential, for
  the same endpoint and parameters, with an upstream that answers both requests alike:
  both runs return the same result and end with the same cache, object store and counters.
  The only key the run can add to the cache is the key derived from the endpoint and the
  parameters, which \<^const>\<open>generate_cache_key\<close> computes without the state. The
  credential shows in one place only: the parameters of the request that a miss sends.
\<close>

theorem make_request_credential_independent:
  assumes same: "upstream1 (request_for (s\<lparr>api_key := k1\<rparr>) endpoint ps)
         = upstream2 (request_for (s\<lparr>api_key := k2\<rparr>) endpoint ps)"
  shows "(case make_request upstream1 md5 endpoint ps now (s\<lparr>api_key := k1\<rparr>) of (r1, s1) \<Rightarrow>
            (case make_request upstream2 md5 endpoint ps now (s\<lparr>api_key := k2\<rparr>) of (r2, s2) \<Rightarrow>
               r1 = r2 \<and> cache s1 = cache s2 \<and> heap s1 = heap s2
             \<and> cache_hits s1 = cache_hits s2 \<and> cache_misses s1 = cache_misses s2
             \<and> ckey ` set (entries (cache s1))
                 \<subseteq> insert (generate_cache_key md5 endpoint ps) (ckey ` set (entries (cache s)))
             \<and> (sent s1 = sent s \<and> sent s2 = sent s
                \<or> sent s1 = sent s @ [\<lparr>url = base_url s @ ''/'' @ endpoint,
                                       query = AList.update ''apikey'' (pval_of_key k1) ps\<rparr>]
                  \<and> sent s2 = sent s @ [\<lparr>url = base_url s @ ''/'' @ endpoint,
                                       query = AList.update ''apikey'' (pval_of_key k2) ps\<rparr>])))"
proof -
  obtain r1 s1 where m1: "make_request upstream1 md5 endpoint ps now (s\<lparr>api_key := k1\<rparr>) = (r1, s1)"
    by (cases "make_request upstream1 md5 endpoint ps now (s\<lparr>api_key := k1\<rparr>)")
  obtain r2 s2 where m2: "make_request upstream2 md5 endpoint ps now (s\<lparr>api_key := k2\<rparr>) = (r2, s2)"
    by (cases "make_request upstream2 md5 endpoint ps now (s\<lparr>api_key := k2\<rparr>)")
  from make_request_api_key [where ?upstream1.0 = upstream1 and ?upstream2.0 = upstream2 and s = s and ?k1.0 = k1 and ?k2.0 = k2 and ?md5.0 = md5 and now = now, OF same] m1 m2
  have r: "r1 = r2" and s: "s2 = s1\<lparr>api_key := k2, sent := sent s2\<rparr>" by simp_all
  have eqs: "cache s1 = cache s2" "heap s1 = heap s2" "cache_hits s1 = cache_hits s2"
      "cache_misses s1 = cache_misses s2"
    by (subst s, simp)+
  from make_request_cache_cases [of upstream1 md5 endpoint ps now "s\<lparr>api_key := k1\<rparr>"] m1
  consider "cache s1 = cache s"
    | data where "cache s1 = cache_set (cache s) (generate_cache_key md5 endpoint ps) data now"
    by auto
  then have keys: "ckey ` set (entries (cache s1))
      \<subseteq> insert (generate_cache_key md5 endpoint ps) (ckey ` set (entries (cache s)))"
  proof cases
    case 1
    then show ?thesis by auto
  next
    case 2
    then show ?thesis by (simp add: keys_cache_set)
  qed
  from make_request_sent_pair [where ?upstream1.0 = upstream1 and ?upstream2.0 = upstream2 and s = s and ?k1.0 = k1 and ?k2.0 = k2 and ?md5.0 = md5 and now = now, OF same] m1 m2
  have snt: "sent s1 = sent s \<and> sent s2 = sent s
                \<or> sent s1 = sent s @ [\<lparr>url = base_url s @ ''/'' @ endpoint,
                                       query = AList.update ''apikey'' (pval_of_key k1) ps\<rparr>]
                  \<and> sent s2 = sent s @ [\<lparr>url = base_url s @ ''/'' @ endpoint,
                                       query = AList.update ''apikey'' (pval_of_key k2) ps\<rparr>]"
    by simp
  show ?thesis unfolding m1 m2 prod.case using r eqs keys snt by (intro conjI)
qed

theorem make_request_credential_independent_witness:
  "example_upstream (request_for (example_state\<lparr>api_key := Some ''A''\<rparr>) ''search'' [(''q'', PStr ''x'')])
     = example_upstream (request_for (example_state\<lparr>api_key := Some ''B''\<rparr>) ''search'' [(''q'', PStr ''x'')])
   \<and> (case make_request example_upstream (\<lambda>x. x) ''search'' [(''q'', PStr ''x'')] 0
              (example_state\<lparr>api_key := Some ''A''\<rparr>) of
        (r1, s1) \<Rightarrow>
          (case make_request example_upstream (\<lambda>x. x) ''search'' [(''q'', PStr ''x'')] 0
                  (example_state\<lparr>api_key := Some ''B''\<rparr>) of
             (r2, s2) \<Rightarrow>
               r1 = r2 \<and> cache s1 = cache s2 \<and> heap s1 = heap s2
             \<and> cache_hits s1 = cache_hits s2 \<and> cache_misses s1 = cache_misses s2
             \<and> ckey ` set (entries (cache s1))
                 \<subseteq> insert (generate_cache_key (\<lambda>x. x) ''search'' [(''q'', PStr ''x'')])
                     (ckey ` set (entries (cache example_state)))
             \<and> (sent s1 = sent example_state \<and> sent s2 = sent example_state
                \<or> sent s1 = sent example_state @
                     [\<lparr>url = base_url example_state @ ''/'' @ ''search'',
                       query = AList.update ''apikey'' (pval_of_key (Some ''A'')) [(''q'', PStr ''x'')]\<rparr>]
                  \<and> sent s2 = sent example_state @
                     [\<lparr>url = base_url example_state @ ''/'' @ ''search'',
                       query = AList.update ''apikey'' (pval_of_key (Some ''B'')) [(''q'', PStr ''x'')]\<rparr>])))"
proof -
  have h: "example_upstream (request_for (example_state\<lparr>api_key := Some ''A''\<rparr>) ''search'' [(''q'', PStr ''x'')])
     = example_upstream (request_for (example_state\<lparr>api_key := Some ''B''\<rparr>) ''search'' [(''q'', PStr ''x'')])"
    by (simp add: example_upstream_def)
  note c = make_request_credential_independent [where ?upstream1.0 = example_upstream
      and ?upstream2.0 = example_upstream and s = example_state and ?k1.0 = "Some ''A''"
      and ?k2.0 = "Some ''B''" and ?md5.0 = "\<lambda>x. x" and now = 0, OF h]
  show ?thesis using h c by (intro conjI)
qed

section \<open>The filtered searches\<close>

lemma find_by_title_post_filter:
  "find_by_title upstream md5 title exact now s
     = post_filter (\<lambda>h arts. title_filter h (lower title) exact arts [])
         (search_articles upstream md5 (title_query title exact) 50 ''en'' ''us'' ''relevance'' now s)"
  by (simp add: find_by_title_def post_filter_def title_query_def Let_def)

lemma find_by_author_post_filter:
  "find_by_author upstream md5 author cnt now s
     = post_filter (\<lambda>h arts. author_filter h (lower author) cnt arts [])
         (search_articles upstream md5 author 100 ''en'' ''us'' ''relevance'' now s)"
  by (simp add: find_by_author_def post_filter_def)

lemma title_filter_eq:
  assumes "\<forall>a \<in> set arts. title_of h a \<noteq> None"
  shows "title_filter h (lower title) exact arts acc
       = Inr (acc @ filter (title_matches h title exact) arts)"
  using assms
proof (induction arts arbitrary: acc)
  case Nil
  then show ?case by simp
next
  case (Cons a arts)
  from Cons.prems obtain t where t: "title_of h a = Some t" by auto
  then obtain afs tv where a: "view_of h a = DictV afs" "map_of afs ''title'' = Some tv"
      "view_of h tv = StrV t"
    by (auto simp: title_of_def split: view.splits option.splits)
  from Cons.prems have rest: "\<forall>a \<in> set arts. title_of h a \<noteq> None" by simp
  show ?case
    by (simp add: a t title_matches_def Cons.IH [OF rest])
qed

lemma author_match_shaped:
  assumes "article_shaped h a"
  shows "author_match h (lower author) a = Inr (author_matches h author a)"
  using assms
  by (auto simp: article_shaped_def author_match_def author_matches_def source_name_def
      split: view.splits option.splits)

lemma author_filter_eq:
  assumes "\<forall>a \<in> set arts. article_shaped h a" and "int (length acc) < cnt"
  shows "author_filter h (lower author) cnt arts acc
       = Inr (take (nat cnt) (acc @ filter (author_matches h author) arts))"
  using assms
proof (induction arts arbitrary: acc)
  case Nil
  then show ?case by simp
next
  case (Cons a arts)
  from Cons.prems have m: "author_match h (lower author) a = Inr (author_matches h author a)"
    by (simp add: author_match_shaped)
  from Cons.prems have rest: "\<forall>a \<in> set arts. article_shaped h a" by simp
  show ?case
  proof (cases "author_matches h author a")
    case False
    then show ?thesis using Cons.IH [OF rest Cons.prems(2)] by (simp add: m)
  next
    case True
    show ?thesis
    proof (cases "int (length (acc @ [a])) \<ge> cnt")
      case full: True
      with Cons.prems(2) have "nat cnt = Suc (length acc)" by simp
      then show ?thesis using True full by (simp add: m)
    next
      case room: False
      then have "int (length (acc @ [a])) < cnt" by simp
      from Cons.IH [OF rest this] show ?thesis using True room by (simp add: m)
    qed
  qed
qed

text \<open>
  C6. \<open>find_by_title\<close> searches for the title, in double quotes when \<open>exact\<close> is set,
  with \<open>max = 50\<close>. When the search returns the dict at \<open>r\<close> whose \<open>articles\<close> is a
  list of articles that all have a string as title, \<open>find_by_title\<close> returns the same
  dict, in which \<open>articles\<close> is now a new list of exactly the articles whose title is
  equal to the given title without regard to case (\<open>exact\<close>), or contains it without
  regard to case, in their order, and \<open>totalArticles\<close> is the length of that list.
\<close>

theorem find_by_title_filters:
  assumes search: "search_articles upstream md5 (title_query title exact) 50 ''en'' ''us''
                     ''relevance'' now s = (Inr (VRef r), s1)"
    and res: "view_of (heap s1) (VRef r) = DictV fs"
    and arts: "map_of fs ''articles'' = Some l" "view_of (heap s1) l = ListV arts"
    and titled: "\<forall>a \<in> set arts. title_of (heap s1) a \<noteq> None"
  shows "find_by_title upstream md5 title exact now s
       = (Inr (VRef r),
          s1\<lparr>heap := (heap s1 @ [OList (filter (title_matches (heap s1) title exact) arts)])
                 [r := ODict (AList.update ''totalArticles''
                                (VInt (int (length (filter (title_matches (heap s1) title exact) arts))))
                                (AList.update ''articles'' (VRef (length (heap s1))) fs))]\<rparr>)
     \<and> search_params (title_query title exact) 50 ''en'' ''us'' ''relevance''
       = [(''q'', PStr (if exact then [CHR 0x22] @ title @ [CHR 0x22] else title)),
          (''max'', PInt 50), (''lang'', PStr ''en''), (''country'', PStr ''us''),
          (''sortby'', PStr ''relevance'')]"
proof -
  have loop: "title_filter (heap s1) (lower title) exact arts []
      = Inr (filter (title_matches (heap s1) title exact) arts)"
    using title_filter_eq [OF titled, of title exact "[]"] by simp
  have "find_by_title upstream md5 title exact now s
      = post_filter (\<lambda>h arts. title_filter h (lower title) exact arts []) (Inr (VRef r), s1)"
    by (simp add: find_by_title_post_filter search)
  also have "\<dots> = (Inr (VRef r),
       store_filtered r fs (filter (title_matches (heap s1) title exact) arts) s1)"
    using res arts loop by (simp add: post_filter_def)
  finally show ?thesis
    by (simp add: store_filtered_def search_params_def title_query_def)
qed

theorem find_by_title_filters_witness:
  "search_articles example_upstream (\<lambda>x. x) (title_query ''Election'' False) 50 ''en'' ''us''
       ''relevance'' 0 example_state
     = (Inr (VRef 8), (snd (search_articles example_upstream (\<lambda>x. x) (title_query ''Election'' False) 50 ''en'' ''us''
          ''relevance'' 0 example_state)))
   \<and> view_of (heap (snd (search_articles example_upstream (\<lambda>x. x) (title_query ''Election'' False) 50 ''en'' ''us''
          ''relevance'' 0 example_state))) (VRef 8)
     = DictV [(''totalArticles'', VInt 3), (''articles'', VRef 6), (''from_cache'', VBool False)]
   \<and> map_of [(''totalArticles'', VInt 3), (''articles'', VRef 6), (''from_cache'', VBool False)] ''articles''
     = Some (VRef 6)
   \<and> view_of (heap (snd (search_articles example_upstream (\<lambda>x. x) (title_query ''Election'' False) 50 ''en'' ''us''
          ''relevance'' 0 example_state))) (VRef 6)
     = ListV [VRef 1, VRef 3, VRef 5]
   \<and> list_all (\<lambda>a. title_of (heap (snd (search_articles example_upstream (\<lambda>x. x) (title_query ''Election'' False) 50 ''en'' ''us''
          ''relevance'' 0 example_state))) a \<noteq> None) [VRef 1, VRef 3, VRef 5]
   \<and> fst (find_by_title example_upstream (\<lambda>x. x) ''Election'' False 0 example_state) = Inr (VRef 8)
   \<and> view_of (heap (snd (find_by_title example_upstream (\<lambda>x. x) ''Election'' False 0 example_state))) (VRef 8)
       = DictV [(''totalArticles'', VInt 1), (''articles'', VRef 9), (''from_cache'', VBool False)]
   \<and> view_of (heap (snd (find_by_title example_upstream (\<lambda>x. x) ''Election'' False 0 example_state))) (VRef 9)
       = ListV [VRef 1]"
proof -
  have h1: "search_articles example_upstream (\<lambda>x. x) (title_query ''Election'' False) 50 ''en'' ''us''
       ''relevance'' 0 example_state
     = (Inr (VRef 8), (snd (search_articles example_upstream (\<lambda>x. x) (title_query ''Election'' False) 50 ''en'' ''us''
          ''relevance'' 0 example_state)))"
    by code_simp
  have h2: "view_of (heap (snd (search_articles example_upstream (\<lambda>x. x) (title_query ''Election'' False) 50 ''en'' ''us''
          ''relevance'' 0 example_state))) (VRef 8)
     = DictV [(''totalArticles'', VInt 3), (''articles'', VRef 6), (''from_cache'', VBool False)]"
    by code_simp
  have h3: "map_of [(''totalArticles'', VInt 3), (''articles'', VRef 6), (''from_cache'', VBool False)] ''articles''
     = Some (VRef 6)"
    by simp
  have h4: "view_of (heap (snd (search_articles example_upstream (\<lambda>x. x) (title_query ''Election'' False) 50 ''en'' ''us''
          ''relevance'' 0 example_state))) (VRef 6)
     = ListV [VRef 1, VRef 3, VRef 5]"
    by code_simp
  have h5: "\<forall>a \<in> set [VRef 1, VRef 3, VRef 5].
       title_of (heap (snd (search_articles example_upstream (\<lambda>x. x) (title_query ''Election'' False) 50 ''en'' ''us''
          ''relevance'' 0 example_state))) a \<noteq> None"
    by code_simp
  have h5': "list_all (\<lambda>a. title_of (heap (snd (search_articles example_upstream (\<lambda>x. x) (title_query ''Election'' False) 50 ''en'' ''us''
          ''relevance'' 0 example_state))) a \<noteq> None) [VRef 1, VRef 3, VRef 5]"
    using h5 by simp
  have m: "filter (title_matches (heap (snd (search_articles example_upstream (\<lambda>x. x) (title_query ''Election'' False) 50 ''en'' ''us''
          ''relevance'' 0 example_state))) ''Election'' False) [VRef 1, VRef 3, VRef 5] = [VRef 1]"
    by code_simp
  have l: "length (heap (snd (search_articles example_upstream (\<lambda>x. x) (title_query ''Election'' False) 50 ''en'' ''us''
          ''relevance'' 0 example_state))) = 9"
    by code_simp
  note r = find_by_title_filters [where upstream = example_upstream, OF h1 h2 h3 h4 h5,
      unfolded m l]
  have e: "(find_by_title example_upstream (\<lambda>x. x) ''Election'' False 0 example_state)
      = (Inr (VRef 8),
         (snd (search_articles example_upstream (\<lambda>x. x) (title_query ''Election'' False) 50 ''en'' ''us''
          ''relevance'' 0 example_state))\<lparr>heap := (heap (snd (search_articles example_upstream (\<lambda>x. x) (title_query ''Election'' False) 50 ''en'' ''us''
          ''relevance'' 0 example_state)) @ [OList [VRef 1]])
            [8 := ODict (AList.update ''totalArticles'' (VInt 1)
                   (AList.update ''articles'' (VRef 9) [(''totalArticles'', VInt 3), (''articles'', VRef 6), (''from_cache'', VBool False)]))]\<rparr>)"
    using r by (simp del: filter.simps)
  have c: "fst (find_by_title example_upstream (\<lambda>x. x) ''Election'' False 0 example_state) = Inr (VRef 8)
   \<and> view_of (heap (snd (find_by_title example_upstream (\<lambda>x. x) ''Election'' False 0 example_state))) (VRef 8)
       = DictV [(''totalArticles'', VInt 1), (''articles'', VRef 9), (''from_cache'', VBool False)]
   \<and> view_of (heap (snd (find_by_title example_upstream (\<lambda>x. x) ''Election'' False 0 example_state))) (VRef 9)
       = ListV [VRef 1]"
    unfolding e by (simp add: l nth_append)
  from h1 h2 h3 h4 h5' c show ?thesis by (elim conjE, intro conjI)
qed

text \<open>
  C5. \<open>find_by_author\<close> searches for the author string with \<open>max = 100\<close>. When the
  search returns the dict at \<open>r\<close> whose \<open>articles\<close> is a list of articles of the shape
  of the upstream contract, and \<open>count\<close> is at least 1, \<open>find_by_author\<close> returns the
  same dict, in which \<open>articles\<close> is now a new list of the first \<open>count\<close> articles whose
  source name contains the author string without regard to case, in their order (an
  article without a source or without a source name is left out), and \<open>totalArticles\<close>
  is the length of that list.
\<close>

theorem find_by_author_filters:
  assumes search: "search_articles upstream md5 author 100 ''en'' ''us'' ''relevance'' now s
                     = (Inr (VRef r), s1)"
    and res: "view_of (heap s1) (VRef r) = DictV fs"
    and arts: "map_of fs ''articles'' = Some l" "view_of (heap s1) l = ListV arts"
    and shaped: "\<forall>a \<in> set arts. article_shaped (heap s1) a"
    and cnt: "1 \<le> cnt"
  shows "find_by_author upstream md5 author cnt now s
       = (Inr (VRef r),
          s1\<lparr>heap := (heap s1 @ [OList (take (nat cnt) (filter (author_matches (heap s1) author) arts))])
                 [r := ODict (AList.update ''totalArticles''
                                (VInt (int (length (take (nat cnt)
                                   (filter (author_matches (heap s1) author) arts)))))
                                (AList.update ''articles'' (VRef (length (heap s1))) fs))]\<rparr>)
     \<and> search_params author 100 ''en'' ''us'' ''relevance''
       = [(''q'', PStr author), (''max'', PInt 100), (''lang'', PStr ''en''),
          (''country'', PStr ''us''), (''sortby'', PStr ''relevance'')]"
proof -
  have "int (length ([] :: val list)) < cnt" using cnt by simp
  from author_filter_eq [OF shaped this, of author]
  have loop: "author_filter (heap s1) (lower author) cnt arts []
      = Inr (take (nat cnt) (filter (author_matches (heap s1) author) arts))"
    by simp
  have "find_by_author upstream md5 author cnt now s
      = post_filter (\<lambda>h arts. author_filter h (lower author) cnt arts []) (Inr (VRef r), s1)"
    by (simp add: find_by_author_post_filter search)
  also have "\<dots> = (Inr (VRef r),
       store_filtered r fs (take (nat cnt) (filter (author_matches (heap s1) author) arts)) s1)"
    using res arts loop by (simp add: post_filter_def)
  finally show ?thesis
    by (simp add: store_filtered_def search_params_def)
qed

theorem find_by_author_filters_witness:
  "search_articles example_upstream (\<lambda>x. x) ''reuters'' 100 ''en'' ''us'' ''relevance'' 0 example_state
     = (Inr (VRef 8), (snd (search_articles example_upstream (\<lambda>x. x) ''reuters'' 100 ''en'' ''us'' ''relevance'' 0
          example_state)))
   \<and> view_of (heap (snd (search_articles example_upstream (\<lambda>x. x) ''reuters'' 100 ''en'' ''us'' ''relevance'' 0
          example_state))) (VRef 8)
     = DictV [(''totalArticles'', VInt 3), (''articles'', VRef 6), (''from_cache'', VBool False)]
   \<and> map_of [(''totalArticles'', VInt 3), (''articles'', VRef 6), (''from_cache'', VBool False)] ''articles''
     = Some (VRef 6)
   \<and> view_of (heap (snd (search_articles example_upstream (\<lambda>x. x) ''reuters'' 100 ''en'' ''us'' ''relevance'' 0
          example_state))) (VRef 6)
     = ListV [VRef 1, VRef 3, VRef 5]
   \<and> list_all (\<lambda>a. article_shaped (heap (snd (search_articles example_upstream (\<lambda>x. x) ''reuters'' 100 ''en'' ''us'' ''relevance'' 0
          example_state))) a) [VRef 1, VRef 3, VRef 5]
   \<and> (1::int) \<le> 1
   \<and> filter (author_matches (heap (snd (search_articles example_upstream (\<lambda>x. x) ''reuters'' 100 ''en'' ''us'' ''relevance'' 0
          example_state))) ''reuters'') [VRef 1, VRef 3, VRef 5] = [VRef 1, VRef 5]
   \<and> fst (find_by_author example_upstream (\<lambda>x. x) ''reuters'' 1 0 example_state) = Inr (VRef 8)
   \<and> view_of (heap (snd (find_by_author example_upstream (\<lambda>x. x) ''reuters'' 1 0 example_state))) (VRef 8)
       = DictV [(''totalArticles'', VInt 1), (''articles'', VRef 9), (''from_cache'', VBool False)]
   \<and> view_of (heap (snd (find_by_author example_upstream (\<lambda>x. x) ''reuters'' 1 0 example_state))) (VRef 9)
       = ListV [VRef 1]"
proof -
  have h1: "search_articles example_upstream (\<lambda>x. x) ''reuters'' 100 ''en'' ''us'' ''relevance'' 0 example_state
     = (Inr (VRef 8), (snd (search_articles example_upstream (\<lambda>x. x) ''reuters'' 100 ''en'' ''us'' ''relevance'' 0
          example_state)))"
    by code_simp
  have h2: "view_of (heap (snd (search_articles example_upstream (\<lambda>x. x) ''reuters'' 100 ''en'' ''us'' ''relevance'' 0
          example_state))) (VRef 8)
     = DictV [(''totalArticles'', VInt 3), (''articles'', VRef 6), (''from_cache'', VBool False)]"
    by code_simp
  have h3: "map_of [(''totalArticles'', VInt 3), (''articles'', VRef 6), (''from_cache'', VBool False)] ''articles''
     = Some (VRef 6)"
    by simp
  have h4: "view_of (heap (snd (search_articles example_upstream (\<lambda>x. x) ''reuters'' 100 ''en'' ''us'' ''relevance'' 0
          example_state))) (VRef 6)
     = ListV [VRef 1, VRef 3, VRef 5]"
    by code_simp
  have h5: "\<forall>a \<in> set [VRef 1, VRef 3, VRef 5].
       article_shaped (heap (snd (search_articles example_upstream (\<lambda>x. x) ''reuters'' 100 ''en'' ''us'' ''relevance'' 0
          example_state))) a"
    by code_simp
  have h5': "list_all (\<lambda>a. article_shaped (heap (snd (search_articles example_upstream (\<lambda>x. x) ''reuters'' 100 ''en'' ''us'' ''relevance'' 0
          example_state))) a) [VRef 1, VRef 3, VRef 5]"
    using h5 by simp
  have h6: "(1::int) \<le> 1" by simp
  have m: "filter (author_matches (heap (snd (search_articles example_upstream (\<lambda>x. x) ''reuters'' 100 ''en'' ''us'' ''relevance'' 0
          example_state))) ''reuters'') [VRef 1, VRef 3, VRef 5] = [VRef 1, VRef 5]"
    by code_simp
  have l: "length (heap (snd (search_articles example_upstream (\<lambda>x. x) ''reuters'' 100 ''en'' ''us'' ''relevance'' 0
          example_state))) = 9"
    by code_simp
  note r = find_by_author_filters [where upstream = example_upstream, OF h1 h2 h3 h4 h5 h6,
      unfolded m l]
  have e: "(find_by_author example_upstream (\<lambda>x. x) ''reuters'' 1 0 example_state)
      = (Inr (VRef 8),
         (snd (search_articles example_upstream (\<lambda>x. x) ''reuters'' 100 ''en'' ''us'' ''relevance'' 0
          example_state))\<lparr>heap := (heap (snd (search_articles example_upstream (\<lambda>x. x) ''reuters'' 100 ''en'' ''us'' ''relevance'' 0
          example_state)) @ [OList [VRef 1]])
            [8 := ODict (AList.update ''totalArticles'' (VInt 1)
                   (AList.update ''articles'' (VRef 9) [(''totalArticles'', VInt 3), (''articles'', VRef 6), (''from_cache'', VBool False)]))]\<rparr>)"
    using r by (simp del: filter.simps)
  have c: "fst (find_by_author example_upstream (\<lambda>x. x) ''reuters'' 1 0 example_state) = Inr (VRef 8)
   \<and> view_of (heap (snd (find_by_author example_upstream (\<lambda>x. x) ''reuters'' 1 0 example_state))) (VRef 8)
       = DictV [(''totalArticles'', VInt 1), (''articles'', VRef 9), (''from_cache'', VBool False)]
   \<and> view_of (heap (snd (find_by_author example_upstream (\<lambda>x. x) ''reuters'' 1 0 example_state))) (VRef 9)
       = ListV [VRef 1]"
    unfolding e by (simp add: l nth_append)
  from h1 h2 h3 h4 h5' h6 m c show ?thesis by (elim conjE, intro conjI)
qed

lemma title_filter_untitled:
  assumes "\<forall>a \<in> set pre. title_of h a \<noteq> None"
    and "view_of h bad = DictV bfs" and "map_of bfs ''title'' = None"
  shows "title_filter h st exact (pre @ bad # post) acc = Inl (KeyError ''title'')"
  using assms(1)
proof (induction pre arbitrary: acc)
  case Nil
  then show ?case using assms(2,3) by simp
next
  case (Cons a pre)
  from Cons.prems obtain t where t: "title_of h a = Some t" by auto
  then obtain afs tv where a: "view_of h a = DictV afs" "map_of afs ''title'' = Some tv"
      "view_of h tv = StrV t"
    by (auto simp: title_of_def split: view.splits option.splits)
  from Cons.prems have "\<forall>a \<in> set pre. title_of h a \<noteq> None" by simp
  from Cons.IH [OF this] show ?case by (simp add: a)
qed

text \<open>
  C10. When the list of articles that the search returns has an article that is a dict
  without the key \<open>title\<close>, and every article before it has a string as title,
  \<open>find_by_title\<close> fails with \<open>KeyError('title')\<close>, which is not an \<open>Exception\<close>
  raised by \<open>_make_request\<close>: the access \<open>article["title"]\<close> is partial. The instance
  below is such a search result.
\<close>

theorem find_by_title_missing_title:
  assumes search: "search_articles upstream md5 (title_query title exact) 50 ''en'' ''us''
                     ''relevance'' now s = (Inr (VRef r), s1)"
    and res: "view_of (heap s1) (VRef r) = DictV fs"
    and arts: "map_of fs ''articles'' = Some l" "view_of (heap s1) l = ListV (pre @ bad # post)"
    and titled: "\<forall>a \<in> set pre. title_of (heap s1) a \<noteq> None"
    and bad: "view_of (heap s1) bad = DictV bfs" "map_of bfs ''title'' = None"
  shows "find_by_title upstream md5 title exact now s = (Inl (KeyError ''title''), s1)
       \<and> (\<forall>msg. KeyError ''title'' \<noteq> Exception msg)"
proof -
  have loop: "title_filter (heap s1) (lower title) exact (pre @ bad # post) []
      = Inl (KeyError ''title'')"
    by (rule title_filter_untitled [OF titled bad])
  have "find_by_title upstream md5 title exact now s
      = post_filter (\<lambda>h arts. title_filter h (lower title) exact arts []) (Inr (VRef r), s1)"
    by (simp add: find_by_title_post_filter search)
  also have "\<dots> = (Inl (KeyError ''title''), s1)"
    using res arts loop by (simp add: post_filter_def)
  finally show ?thesis by simp
qed

theorem find_by_title_missing_title_witness:
  "search_articles (\<lambda>req. Response 200 (Inr untitled_doc)) (\<lambda>x. x) (title_query ''Election'' False) 50
       ''en'' ''us'' ''relevance'' 0 example_state
     = (Inr (VRef 4), (snd (search_articles (\<lambda>req. Response 200 (Inr untitled_doc)) (\<lambda>x. x) (title_query ''Election'' False) 50
          ''en'' ''us'' ''relevance'' 0 example_state)))
   \<and> view_of (heap (snd (search_articles (\<lambda>req. Response 200 (Inr untitled_doc)) (\<lambda>x. x) (title_query ''Election'' False) 50
          ''en'' ''us'' ''relevance'' 0 example_state))) (VRef 4)
     = DictV [(''totalArticles'', VInt 2), (''articles'', VRef 2), (''from_cache'', VBool False)]
   \<and> map_of [(''totalArticles'', VInt 2), (''articles'', VRef 2), (''from_cache'', VBool False)] ''articles''
     = Some (VRef 2)
   \<and> view_of (heap (snd (search_articles (\<lambda>req. Response 200 (Inr untitled_doc)) (\<lambda>x. x) (title_query ''Election'' False) 50
          ''en'' ''us'' ''relevance'' 0 example_state))) (VRef 2)
     = ListV ([VRef 0] @ VRef 1 # [])
   \<and> list_all (\<lambda>a. title_of (heap (snd (search_articles (\<lambda>req. Response 200 (Inr untitled_doc)) (\<lambda>x. x) (title_query ''Election'' False) 50
          ''en'' ''us'' ''relevance'' 0 example_state))) a \<noteq> None) [VRef 0]
   \<and> view_of (heap (snd (search_articles (\<lambda>req. Response 200 (Inr untitled_doc)) (\<lambda>x. x) (title_query ''Election'' False) 50
          ''en'' ''us'' ''relevance'' 0 example_state))) (VRef 1)
     = DictV [(''description'', VStr ''An article without a title'')]
   \<and> map_of [(''description'', VStr ''An article without a title'')] ''title'' = None
   \<and> fst (find_by_title (\<lambda>req. Response 200 (Inr untitled_doc)) (\<lambda>x. x) ''Election'' False 0 example_state)
       = Inl (KeyError ''title'')"
proof -
  have h1: "search_articles (\<lambda>req. Response 200 (Inr untitled_doc)) (\<lambda>x. x) (title_query ''Election'' False) 50
       ''en'' ''us'' ''relevance'' 0 example_state
     = (Inr (VRef 4), (snd (search_articles (\<lambda>req. Response 200 (Inr untitled_doc)) (\<lambda>x. x) (title_query ''Election'' False) 50
          ''en'' ''us'' ''relevance'' 0 example_state)))"
    by code_simp
  have h2: "view_of (heap (snd (search_articles (\<lambda>req. Response 200 (Inr untitled_doc)) (\<lambda>x. x) (title_query ''Election'' False) 50
          ''en'' ''us'' ''relevance'' 0 example_state))) (VRef 4)
     = DictV [(''totalArticles'', VInt 2), (''articles'', VRef 2), (''from_cache'', VBool False)]"
    by code_simp
  have h3: "map_of [(''totalArticles'', VInt 2), (''articles'', VRef 2), (''from_cache'', VBool False)] ''articles''
     = Some (VRef 2)"
    by simp
  have h4: "view_of (heap (snd (search_articles (\<lambda>req. Response 200 (Inr untitled_doc)) (\<lambda>x. x) (title_query ''Election'' False) 50
          ''en'' ''us'' ''relevance'' 0 example_state))) (VRef 2)
     = ListV ([VRef 0] @ VRef 1 # [])"
    by code_simp
  have h5: "\<forall>a \<in> set [VRef 0].
       title_of (heap (snd (search_articles (\<lambda>req. Response 200 (Inr untitled_doc)) (\<lambda>x. x) (title_query ''Election'' False) 50
          ''en'' ''us'' ''relevance'' 0 example_state))) a \<noteq> None"
    by code_simp
  have h5': "list_all (\<lambda>a. title_of (heap (snd (search_articles (\<lambda>req. Response 200 (Inr untitled_doc)) (\<lambda>x. x) (title_query ''Election'' False) 50
          ''en'' ''us'' ''relevance'' 0 example_state))) a \<noteq> None) [VRef 0]"
    using h5 by simp
  have h6: "view_of (heap (snd (search_articles (\<lambda>req. Response 200 (Inr untitled_doc)) (\<lambda>x. x) (title_query ''Election'' False) 50
          ''en'' ''us'' ''relevance'' 0 example_state))) (VRef 1)
     = DictV [(''description'', VStr ''An article without a title'')]"
    by code_simp
  have h7: "map_of [(''description'', VStr ''An article without a title'')] ''title'' = None"
    by simp
  note r = find_by_title_missing_title [where upstream = "\<lambda>req. Response 200 (Inr untitled_doc)",
      OF h1 h2 h3 h4 h5 h6 h7]
  have c: "fst (find_by_title (\<lambda>req. Response 200 (Inr untitled_doc)) (\<lambda>x. x) ''Election'' False 0 example_state)
       = Inl (KeyError ''title'')"
    using r by simp
  from h1 h2 h3 h4 h5' h6 h7 c show ?thesis by (intro conjI)
qed

section \<open>The cache under the filtered searches\<close>

lemma make_request_miss_general:
  assumes "cache_get (cache s) (generate_cache_key md5 endpoint ps) now = None"
    and "upstream (request_for s endpoint ps) = Response status (Inr j)"
    and "is_success status"
    and "alloc_json j (heap s) = (data, h)"
  shows "case make_request upstream md5 endpoint ps now s of
           (r0, s0) \<Rightarrow>
             cache s0 = cache_set (cache s) (generate_cache_key md5 endpoint ps) data now
           \<and> sent s0 = sent s @ [request_for s endpoint ps]
           \<and> cache_hits s0 = cache_hits s \<and> cache_misses s0 = cache_misses s + 1
           \<and> (heap s0 = h \<and> (\<exists>e. r0 = Inl e)
              \<or> (\<exists>x. heap s0 = h @ [x] \<and> r0 = Inr (VRef (length h))))"
  using assms
  by (auto simp: make_request_def request_for_def Let_def split: view.splits)

lemma make_request_hit_general:
  assumes "cache_get (cache s) (generate_cache_key md5 endpoint ps) now = Some data"
  shows "case make_request upstream md5 endpoint ps now s of
           (r0, s0) \<Rightarrow>
             cache s0 = cache s \<and> sent s0 = sent s
           \<and> cache_hits s0 = cache_hits s + 1 \<and> cache_misses s0 = cache_misses s
           \<and> (heap s0 = heap s \<and> (\<exists>e. r0 = Inl e)
              \<or> (\<exists>x. heap s0 = heap s @ [x] \<and> r0 = Inr (VRef (length (heap s)))))"
  using assms
  by (auto simp: make_request_def Let_def split: view.splits)

lemma post_filter_frame:
  assumes "heap s0 = h \<and> (\<exists>e. r0 = Inl e)
         \<or> (\<exists>x. heap s0 = h @ [x] \<and> r0 = Inr (VRef (length h)))"
  shows "case post_filter loop (r0, s0) of
           (r, s') \<Rightarrow> cache s' = cache s0 \<and> cache_hits s' = cache_hits s0
             \<and> cache_misses s' = cache_misses s0 \<and> sent s' = sent s0
             \<and> take (length h) (heap s') = h"
  using assms
  by (auto simp: post_filter_def store_filtered_def
      split: sum.splits val.splits view.splits option.splits obj.splits if_splits)

lemma filtered_twice:
  assumes miss: "cache_get (cache s) (generate_cache_key md5 ''search'' ps) t1 = None"
    and up: "upstream1 (request_for s ''search'' ps) = Response status (Inr j)"
    and ok: "is_success status"
    and alloc: "alloc_json j (heap s) = (data, h)"
    and window: "t2 - t1 < ttl (cache s)"
  shows "case post_filter loop1 (make_request upstream1 md5 ''search'' ps t1 s) of
           (r1, s1) \<Rightarrow>
             (case post_filter loop2 (make_request upstream2 md5 ''search'' ps t2 s1) of
                (r2, s2) \<Rightarrow>
                  cache_get (cache s1) (generate_cache_key md5 ''search'' ps) t2 = Some data
                \<and> take (length h) (heap s1) = h
                \<and> cache s2 = cache s1 \<and> sent s2 = sent s1
                \<and> cache_hits s2 = cache_hits s1 + 1 \<and> cache_misses s2 = cache_misses s1
                \<and> take (length (heap s1)) (heap s2) = heap s1)"
proof -
  let ?K = "generate_cache_key md5 ''search'' ps"
  obtain r0 s0 where m1: "make_request upstream1 md5 ''search'' ps t1 s = (r0, s0)"
    by (cases "make_request upstream1 md5 ''search'' ps t1 s")
  from make_request_miss_general [where upstream = upstream1, OF miss up ok alloc] m1
  have c0: "cache s0 = cache_set (cache s) ?K data t1"
    and f0: "heap s0 = h \<and> (\<exists>e. r0 = Inl e)
              \<or> (\<exists>x. heap s0 = h @ [x] \<and> r0 = Inr (VRef (length h)))"
    by simp_all
  obtain r1 s1 where p1: "post_filter loop1 (r0, s0) = (r1, s1)"
    by (cases "post_filter loop1 (r0, s0)")
  from post_filter_frame [OF f0, of loop1] p1
  have c1: "cache s1 = cache s0" and h1: "take (length h) (heap s1) = h" by simp_all
  have get: "cache_get (cache s1) ?K t2 = Some data"
    using window by (simp add: c1 c0 cache_get_set_same)
  obtain r0' s0' where m2: "make_request upstream2 md5 ''search'' ps t2 s1 = (r0', s0')"
    by (cases "make_request upstream2 md5 ''search'' ps t2 s1")
  from make_request_hit_general [where upstream = upstream2, OF get] m2
  have e2: "cache s0' = cache s1" "sent s0' = sent s1" "cache_hits s0' = cache_hits s1 + 1"
      "cache_misses s0' = cache_misses s1"
    and f2: "heap s0' = heap s1 \<and> (\<exists>e. r0' = Inl e)
              \<or> (\<exists>x. heap s0' = heap s1 @ [x] \<and> r0' = Inr (VRef (length (heap s1))))"
    by simp_all
  obtain r2 s2 where p2: "post_filter loop2 (r0', s0') = (r2, s2)"
    by (cases "post_filter loop2 (r0', s0')")
  from post_filter_frame [OF f2, of loop2] p2
  have e3: "cache s2 = cache s0'" "sent s2 = sent s0'" "cache_hits s2 = cache_hits s0'"
      "cache_misses s2 = cache_misses s0'" "take (length (heap s1)) (heap s2) = heap s1"
    by simp_all
  show ?thesis
    unfolding m1 p1 prod.case m2 p2 using get h1 e2 e3 by simp
qed


lemma keys_update: "fst ` set (AList.update k v al) = insert k (fst ` set al)"
  by (induction al) auto

lemma alloc_fields_keys:
  "alloc_fields kjs acc h0 = (fs, h) \<Longrightarrow> fst ` set fs = fst ` set acc \<union> fst ` set kjs"
proof (induction kjs arbitrary: acc h0)
  case Nil
  then show ?case by simp
next
  case (Cons kj kjs)
  obtain v h1 where a: "alloc_json (snd kj) h0 = (v, h1)" by (cases "alloc_json (snd kj) h0")
  with Cons.prems have "alloc_fields kjs (AList.update (fst kj) v acc) h1 = (fs, h)" by simp
  from Cons.IH [OF this] show ?case
    by (simp add: keys_update Un_commute insert_commute)
qed

lemma alloc_json_object_view:
  assumes "alloc_json (JObj kjs) h0 = (data, h)"
  shows "\<exists>fs. view_of h data = DictV fs \<and> fst ` set fs = fst ` set kjs"
proof -
  obtain fs h1 where a: "alloc_fields kjs [] h0 = (fs, h1)" by (cases "alloc_fields kjs [] h0")
  with assms have "data = VRef (length h1)" "h = h1 @ [ODict fs]" by simp_all
  moreover from alloc_fields_keys [OF a] have "fst ` set fs = fst ` set kjs" by simp
  ultimately show ?thesis by simp
qed

lemma view_of_prefix:
  assumes "take (length h) h' = h" and "view_of h v \<noteq> NoneV"
  shows "view_of h' v = view_of h v"
proof (cases v)
  case (VRef a)
  with assms(2) have a: "a < length h" by (auto split: if_splits)
  have "length (take (length h) h') = length h" using assms(1) by simp
  then have "length h \<le> length h'" by simp
  moreover have "take (length h) h' ! a = h' ! a" using a by simp
  then have "h' ! a = h ! a" using assms(1) by simp
  ultimately show ?thesis using a VRef by simp
qed simp_all




lemma alloc_json_view_stable:
  assumes "alloc_json j h0 = (data, h)" and "take (length h) h' = h"
  shows "view_of h' data = view_of h data"
proof (cases "view_of h data = NoneV")
  case False
  then show ?thesis using assms(2) by (simp add: view_of_prefix)
next
  case True
  have "\<exists>a. data = VRef a \<Longrightarrow> False"
    using assms(1) True by (cases j) (auto split: prod.splits)
  then show ?thesis by (cases data) auto
qed

lemma filtered_twice_views:
  assumes alloc: "alloc_json j (heap s) = (data, h)"
    and h1: "take (length h) (heap s1) = h"
    and h2: "take (length (heap s1)) (heap s2) = heap s1"
  shows "view_of (heap s2) data = view_of h data
       \<and> (case j of
            JObj kjs \<Rightarrow> \<exists>fs. view_of h data = DictV fs \<and> fst ` set fs = fst ` set kjs
          | _ \<Rightarrow> True)"
proof -
  have "take (length h) (take (length (heap s1)) (heap s2)) = h" using h1 h2 by simp
  moreover have "length h \<le> length (heap s1)"
  proof -
    have "length (take (length h) (heap s1)) = length h" using h1 by simp
    then show ?thesis by simp
  qed
  ultimately have "take (length h) (heap s2) = h" by (simp add: min_absorb1)
  from alloc_json_view_stable [OF alloc this]
  have v: "view_of (heap s2) data = view_of h data" .
  have "case j of
            JObj kjs \<Rightarrow> \<exists>fs. view_of h data = DictV fs \<and> fst ` set fs = fst ` set kjs
          | _ \<Rightarrow> True"
    using alloc by (cases j) (simp_all only: json.case alloc_json_object_view)
  with v show ?thesis by simp
qed

text \<open>
  C8. \<open>find_by_title\<close> and \<open>find_by_author\<close>, each called twice with the same arguments
  from a state in which the search is not cached, while the upstream answers the first call
  with a 2xx response and the document \<open>j\<close>; the second call falls into the TTL. Let
  \<open>(data, h)\<close> be what \<open>response.json()\<close> builds from \<open>j\<close>. After the first call the
  cache holds \<open>data\<close> under the key of the search, and every object of the store \<open>h\<close>,
  among them all objects of the document, is as it was built: the flag \<open>from_cache\<close> and
  the filtered list went into other objects. The second call is a hit: it sends no request,
  counts one hit, leaves the cache as it is and changes no object that existed before it.
  At the end the cached value still reads as the raw document; when the document is an
  object, the cached dict has exactly the member names of the document, so it has the key
  \<open>from_cache\<close> only if the upstream sent it.
\<close>

theorem filtered_search_leaves_cache_raw:
  assumes miss_t: "cache_get (cache s) (generate_cache_key md5 ''search'' (search_params (title_query title exact) 50 ''en'' ''us'' ''relevance'')) t1 = None"
    and up_t: "upstream1 (request_for s ''search'' (search_params (title_query title exact) 50 ''en'' ''us'' ''relevance'')) = Response status_t (Inr j_t)"
    and ok_t: "is_success status_t"
    and alloc_t: "alloc_json j_t (heap s) = (data_t, h_t)"
    and miss_a: "cache_get (cache s) (generate_cache_key md5 ''search'' (search_params author 100 ''en'' ''us'' ''relevance'')) t1 = None"
    and up_a: "upstream1 (request_for s ''search'' (search_params author 100 ''en'' ''us'' ''relevance'')) = Response status_a (Inr j_a)"
    and ok_a: "is_success status_a"
    and alloc_a: "alloc_json j_a (heap s) = (data_a, h_a)"
    and window: "t2 - t1 < ttl (cache s)"
  shows "(case find_by_title upstream1 md5 title exact t1 s of
           (r1, s1) \<Rightarrow>
             (case find_by_title upstream2 md5 title exact t2 s1 of
                (r2, s2) \<Rightarrow>
                  cache_get (cache s1) (generate_cache_key md5 ''search'' (search_params (title_query title exact) 50 ''en'' ''us'' ''relevance'')) t2 = Some data_t
                \<and> take (length h_t) (heap s1) = h_t
                \<and> cache s2 = cache s1 \<and> sent s2 = sent s1
                \<and> cache_hits s2 = cache_hits s1 + 1 \<and> cache_misses s2 = cache_misses s1
                \<and> take (length (heap s1)) (heap s2) = heap s1
                \<and> view_of (heap s2) data_t = view_of h_t data_t
                \<and> (case j_t of
                     JObj kjs \<Rightarrow> \<exists>fs. view_of h_t data_t = DictV fs \<and> fst ` set fs = fst ` set kjs
                   | _ \<Rightarrow> True)))
       \<and> (case find_by_author upstream1 md5 author cnt t1 s of
           (r1, s1) \<Rightarrow>
             (case find_by_author upstream2 md5 author cnt t2 s1 of
                (r2, s2) \<Rightarrow>
                  cache_get (cache s1) (generate_cache_key md5 ''search'' (search_params author 100 ''en'' ''us'' ''relevance'')) t2 = Some data_a
                \<and> take (length h_a) (heap s1) = h_a
                \<and> cache s2 = cache s1 \<and> sent s2 = sent s1
                \<and> cache_hits s2 = cache_hits s1 + 1 \<and> cache_misses s2 = cache_misses s1
                \<and> take (length (heap s1)) (heap s2) = heap s1
                \<and> view_of (heap s2) data_a = view_of h_a data_a
                \<and> (case j_a of
                     JObj kjs \<Rightarrow> \<exists>fs. view_of h_a data_a = DictV fs \<and> fst ` set fs = fst ` set kjs
                   | _ \<Rightarrow> True)))"
proof -
  have t: "(case find_by_title upstream1 md5 title exact t1 s of
           (r1, s1) \<Rightarrow>
             (case find_by_title upstream2 md5 title exact t2 s1 of
                (r2, s2) \<Rightarrow>
                  cache_get (cache s1) (generate_cache_key md5 ''search'' (search_params (title_query title exact) 50 ''en'' ''us'' ''relevance'')) t2 = Some data_t
                \<and> take (length h_t) (heap s1) = h_t
                \<and> cache s2 = cache s1 \<and> sent s2 = sent s1
                \<and> cache_hits s2 = cache_hits s1 + 1 \<and> cache_misses s2 = cache_misses s1
                \<and> take (length (heap s1)) (heap s2) = heap s1
                \<and> view_of (heap s2) data_t = view_of h_t data_t
                \<and> (case j_t of
                     JObj kjs \<Rightarrow> \<exists>fs. view_of h_t data_t = DictV fs \<and> fst ` set fs = fst ` set kjs
                   | _ \<Rightarrow> True)))"
  proof -
    obtain r1 s1 where f1: "find_by_title upstream1 md5 title exact t1 s = (r1, s1)"
      by (cases "find_by_title upstream1 md5 title exact t1 s")
    obtain r2 s2 where f2: "find_by_title upstream2 md5 title exact t2 s1 = (r2, s2)"
      by (cases "find_by_title upstream2 md5 title exact t2 s1")
    from filtered_twice [where ?upstream1.0 = upstream1 and ?upstream2.0 = upstream2,
        OF miss_t up_t ok_t alloc_t window,
        of "\<lambda>h arts. title_filter h (lower title) exact arts []"
           "\<lambda>h arts. title_filter h (lower title) exact arts []"]
    have a: "cache_get (cache s1) (generate_cache_key md5 ''search'' (search_params (title_query title exact) 50 ''en'' ''us'' ''relevance'')) t2 = Some data_t
        \<and> take (length h_t) (heap s1) = h_t
        \<and> cache s2 = cache s1 \<and> sent s2 = sent s1
        \<and> cache_hits s2 = cache_hits s1 + 1 \<and> cache_misses s2 = cache_misses s1
        \<and> take (length (heap s1)) (heap s2) = heap s1"
      using f1 f2 by (simp add: find_by_title_post_filter search_articles_def)
    then have "take (length h_t) (heap s1) = h_t" "take (length (heap s1)) (heap s2) = heap s1"
      by simp_all
    from filtered_twice_views [OF alloc_t this] a show ?thesis
      unfolding f1 f2 prod.case by simp
  qed
  have a: "(case find_by_author upstream1 md5 author cnt t1 s of
           (r1, s1) \<Rightarrow>
             (case find_by_author upstream2 md5 author cnt t2 s1 of
                (r2, s2) \<Rightarrow>
                  cache_get (cache s1) (generate_cache_key md5 ''search'' (search_params author 100 ''en'' ''us'' ''relevance'')) t2 = Some data_a
                \<and> take (length h_a) (heap s1) = h_a
                \<and> cache s2 = cache s1 \<and> sent s2 = sent s1
                \<and> cache_hits s2 = cache_hits s1 + 1 \<and> cache_misses s2 = cache_misses s1
                \<and> take (length (heap s1)) (heap s2) = heap s1
                \<and> view_of (heap s2) data_a = view_of h_a data_a
                \<and> (case j_a of
                     JObj kjs \<Rightarrow> \<exists>fs. view_of h_a data_a = DictV fs \<and> fst ` set fs = fst ` set kjs
                   | _ \<Rightarrow> True)))"
  proof -
    obtain r1 s1 where f1: "find_by_author upstream1 md5 author cnt t1 s = (r1, s1)"
      by (cases "find_by_author upstream1 md5 author cnt t1 s")
    obtain r2 s2 where f2: "find_by_author upstream2 md5 author cnt t2 s1 = (r2, s2)"
      by (cases "find_by_author upstream2 md5 author cnt t2 s1")
    from filtered_twice [where ?upstream1.0 = upstream1 and ?upstream2.0 = upstream2,
        OF miss_a up_a ok_a alloc_a window,
        of "\<lambda>h arts. author_filter h (lower author) cnt arts []"
           "\<lambda>h arts. author_filter h (lower author) cnt arts []"]
    have a: "cache_get (cache s1) (generate_cache_key md5 ''search'' (search_params author 100 ''en'' ''us'' ''relevance'')) t2 = Some data_a
        \<and> take (length h_a) (heap s1) = h_a
        \<and> cache s2 = cache s1 \<and> sent s2 = sent s1
        \<and> cache_hits s2 = cache_hits s1 + 1 \<and> cache_misses s2 = cache_misses s1
        \<and> take (length (heap s1)) (heap s2) = heap s1"
      using f1 f2 by (simp add: find_by_author_post_filter search_articles_def)
    then have "take (length h_a) (heap s1) = h_a" "take (length (heap s1)) (heap s2) = heap s1"
      by simp_all
    from filtered_twice_views [OF alloc_a this] a show ?thesis
      unfolding f1 f2 prod.case by simp
  qed
  from t a show ?thesis by (rule conjI)
qed

theorem filtered_search_leaves_cache_raw_witness:
  "cache_get (cache example_state) (generate_cache_key (\<lambda>x. x) ''search''
       (search_params (title_query ''Election'' False) 50 ''en'' ''us'' ''relevance'')) 0 = None
   \<and> example_upstream (request_for example_state ''search''
       (search_params (title_query ''Election'' False) 50 ''en'' ''us'' ''relevance''))
     = Response 200 (Inr example_doc)
   \<and> is_success 200
   \<and> alloc_json example_doc (heap example_state) = (VRef 7, (snd (alloc_json example_doc [])))
   \<and> cache_get (cache example_state) (generate_cache_key (\<lambda>x. x) ''search''
       (search_params ''reuters'' 100 ''en'' ''us'' ''relevance'')) 0 = None
   \<and> example_upstream (request_for example_state ''search''
       (search_params ''reuters'' 100 ''en'' ''us'' ''relevance''))
     = Response 200 (Inr example_doc)
   \<and> 599 - 0 < ttl (cache example_state)
   \<and> view_of (heap (snd (find_by_title (\<lambda>req. RequestError ''down'') (\<lambda>x. x) ''Election'' False 599
          (snd (find_by_title example_upstream (\<lambda>x. x) ''Election'' False 0 example_state))))) (VRef 7)
     = DictV [(''totalArticles'', VInt 3), (''articles'', VRef 6)]
   \<and> cache_hits (snd (find_by_title (\<lambda>req. RequestError ''down'') (\<lambda>x. x) ''Election'' False 599
          (snd (find_by_title example_upstream (\<lambda>x. x) ''Election'' False 0 example_state))))
     = cache_hits (snd (find_by_title example_upstream (\<lambda>x. x) ''Election'' False 0 example_state)) + 1
   \<and> sent (snd (find_by_title (\<lambda>req. RequestError ''down'') (\<lambda>x. x) ''Election'' False 599
          (snd (find_by_title example_upstream (\<lambda>x. x) ''Election'' False 0 example_state))))
     = sent (snd (find_by_title example_upstream (\<lambda>x. x) ''Election'' False 0 example_state))
   \<and> view_of (heap (snd (find_by_author (\<lambda>req. RequestError ''down'') (\<lambda>x. x) ''reuters'' 1 599
          (snd (find_by_author example_upstream (\<lambda>x. x) ''reuters'' 1 0 example_state))))) (VRef 7)
     = DictV [(''totalArticles'', VInt 3), (''articles'', VRef 6)]
   \<and> cache_hits (snd (find_by_author (\<lambda>req. RequestError ''down'') (\<lambda>x. x) ''reuters'' 1 599
          (snd (find_by_author example_upstream (\<lambda>x. x) ''reuters'' 1 0 example_state))))
     = cache_hits (snd (find_by_author example_upstream (\<lambda>x. x) ''reuters'' 1 0 example_state)) + 1
   \<and> sent (snd (find_by_author (\<lambda>req. RequestError ''down'') (\<lambda>x. x) ''reuters'' 1 599
          (snd (find_by_author example_upstream (\<lambda>x. x) ''reuters'' 1 0 example_state))))
     = sent (snd (find_by_author example_upstream (\<lambda>x. x) ''reuters'' 1 0 example_state))"
proof -
  have h1: "cache_get (cache example_state) (generate_cache_key (\<lambda>x. x) ''search''
       (search_params (title_query ''Election'' False) 50 ''en'' ''us'' ''relevance'')) 0 = None"
    by (rule example_key_absent)
  have h2: "example_upstream (request_for example_state ''search''
       (search_params (title_query ''Election'' False) 50 ''en'' ''us'' ''relevance''))
     = Response 200 (Inr example_doc)"
    by (simp add: example_upstream_def)
  have h3: "is_success 200"
    by (simp add: is_success_def)
  have h4: "alloc_json example_doc (heap example_state) = (VRef 7, (snd (alloc_json example_doc [])))"
    by code_simp
  have h5: "cache_get (cache example_state) (generate_cache_key (\<lambda>x. x) ''search''
       (search_params ''reuters'' 100 ''en'' ''us'' ''relevance'')) 0 = None"
    by (rule example_key_absent)
  have h6: "example_upstream (request_for example_state ''search''
       (search_params ''reuters'' 100 ''en'' ''us'' ''relevance''))
     = Response 200 (Inr example_doc)"
    by (simp add: example_upstream_def)
  have h7: "599 - 0 < ttl (cache example_state)"
    by (simp add: example_state_def init_def)
  have hv: "view_of (snd (alloc_json example_doc [])) (VRef 7) = DictV [(''totalArticles'', VInt 3), (''articles'', VRef 6)]"
    by code_simp
  note c = filtered_search_leaves_cache_raw [where ?upstream1.0 = example_upstream
      and ?upstream2.0 = "\<lambda>req. RequestError ''down''" and ?md5.0 = "\<lambda>x. x"
      and s = example_state and title = "''Election''" and exact = False
      and author = "''reuters''" and cnt = 1 and ?t1.0 = 0 and ?t2.0 = 599,
      OF h1 h2 h3 h4 h5 h6 h3 h4 h7]
  have ct1: "view_of (heap (snd (find_by_title (\<lambda>req. RequestError ''down'') (\<lambda>x. x) ''Election'' False 599
          (snd (find_by_title example_upstream (\<lambda>x. x) ''Election'' False 0 example_state))))) (VRef 7)
     = DictV [(''totalArticles'', VInt 3), (''articles'', VRef 6)]"
    using c [THEN conjunct1] by (simp add: case_prod_beta hv del: view_of.simps)
  have ct2: "cache_hits (snd (find_by_title (\<lambda>req. RequestError ''down'') (\<lambda>x. x) ''Election'' False 599
          (snd (find_by_title example_upstream (\<lambda>x. x) ''Election'' False 0 example_state))))
     = cache_hits (snd (find_by_title example_upstream (\<lambda>x. x) ''Election'' False 0 example_state)) + 1"
    using c [THEN conjunct1] by (simp add: case_prod_beta)
  have ct3: "sent (snd (find_by_title (\<lambda>req. RequestError ''down'') (\<lambda>x. x) ''Election'' False 599
          (snd (find_by_title example_upstream (\<lambda>x. x) ''Election'' False 0 example_state))))
     = sent (snd (find_by_title example_upstream (\<lambda>x. x) ''Election'' False 0 example_state))"
    using c [THEN conjunct1] by (simp add: case_prod_beta)
  have ca1: "view_of (heap (snd (find_by_author (\<lambda>req. RequestError ''down'') (\<lambda>x. x) ''reuters'' 1 599
          (snd (find_by_author example_upstream (\<lambda>x. x) ''reuters'' 1 0 example_state))))) (VRef 7)
     = DictV [(''totalArticles'', VInt 3), (''articles'', VRef 6)]"
    using c [THEN conjunct2] by (simp add: case_prod_beta hv del: view_of.simps)
  have ca2: "cache_hits (snd (find_by_author (\<lambda>req. RequestError ''down'') (\<lambda>x. x) ''reuters'' 1 599
          (snd (find_by_author example_upstream (\<lambda>x. x) ''reuters'' 1 0 example_state))))
     = cache_hits (snd (find_by_author example_upstream (\<lambda>x. x) ''reuters'' 1 0 example_state)) + 1"
    using c [THEN conjunct2] by (simp add: case_prod_beta)
  have ca3: "sent (snd (find_by_author (\<lambda>req. RequestError ''down'') (\<lambda>x. x) ''reuters'' 1 599
          (snd (find_by_author example_upstream (\<lambda>x. x) ''reuters'' 1 0 example_state))))
     = sent (snd (find_by_author example_upstream (\<lambda>x. x) ''reuters'' 1 0 example_state))"
    using c [THEN conjunct2] by (simp add: case_prod_beta)
  from h1 h2 h3 h4 h5 h6 h7 ct1 ct2 ct3 ca1 ca2 ca3 show ?thesis by (intro conjI)
qed

end
